theory Spec2Isabelle
  imports Complex_Main "HOL-Library.AList"
begin

section \<open>Python values, messages and exceptions\<close>

text \<open>
  An exception message written as an f-string is kept as the list of its pieces: the
  literal text and the values that are formatted into it, in order. How Python prints a
  number is not modelled; which values a message embeds is.
\<close>

datatype piece =
    Lit string
  | IntVal int
  | NumVal real
  | StrVal string
  | SiteVal "real \<times> real"

datatype error =
    ValueError "piece list"
  | KeyError string
  | IndexError
  | TypeError
  | RuntimeError
  | NotImplementedError

text \<open>A \<open>for\<close> loop whose body may raise: the first exception ends the loop.\<close>

fun for_each :: "('a \<Rightarrow> 's \<Rightarrow> error + 's) \<Rightarrow> 'a list \<Rightarrow> 's \<Rightarrow> error + 's" where
  "for_each body [] s = Inr s"
| "for_each body (x # xs) s =
     (case body x s of Inl e \<Rightarrow> Inl e | Inr s' \<Rightarrow> for_each body xs s')"

section \<open>Directed graphs (networkx \<open>DiGraph\<close>)\<close>

text \<open>
  A \<open>DiGraph\<close> keeps its adjacency as a dict of dicts, \<open>_adj[u][v]\<close> being the
  attribute dict of the edge \<open>(u, v)\<close>. Python dicts keep insertion order, and the
  edge view iterates in that order, so both levels are association lists. Qubit labels
  are natural numbers. An attribute value is a set of gate names, or some other object
  that is neither \<open>None\<close>, nor a set, nor iterable (\<open>Opaque\<close>).
\<close>

type_synonym qubit = nat

datatype attr_value = GateSet "string set" | Opaque string

type_synonym edge_data = "string \<rightharpoonup> attr_value"

type_synonym digraph = "(qubit \<times> (qubit \<times> edge_data) list) list"

definition nodes :: "digraph \<Rightarrow> qubit list" where
  "nodes g = map fst g"

definition successors :: "digraph \<Rightarrow> qubit \<Rightarrow> qubit list" where
  "successors g n = (case map_of g n of None \<Rightarrow> [] | Some nbrs \<Rightarrow> map fst nbrs)"

definition get_edge_data :: "digraph \<Rightarrow> qubit \<Rightarrow> qubit \<Rightarrow> edge_data option" where
  "get_edge_data g u v = (case map_of g u of None \<Rightarrow> None | Some nbrs \<Rightarrow> map_of nbrs v)"

definition has_edge :: "digraph \<Rightarrow> qubit \<Rightarrow> qubit \<Rightarrow> bool" where
  "has_edge g u v = (get_edge_data g u v \<noteq> None)"

definition has_node :: "digraph \<Rightarrow> qubit \<Rightarrow> bool" where
  "has_node g n = (n \<in> set (nodes g))"

text \<open>
  What networkx maintains for every graph it builds: no key twice at either level, and
  every neighbour is itself a node.
\<close>

definition wf_digraph :: "digraph \<Rightarrow> bool" where
  "wf_digraph g =
     (distinct (map fst g) \<and>
      list_all (\<lambda>(n, nbrs). distinct (map fst nbrs) \<and> list_all (\<lambda>v. v \<in> set (map fst g)) (map fst nbrs)) g)"

definition add_node :: "qubit \<Rightarrow> digraph \<Rightarrow> digraph" where
  "add_node n g = (if n \<in> set (map fst g) then g else g @ [(n, [])])"

text \<open>
  \<open>G.add_edge(u, v, **attr)\<close>: both nodes are added when new (\<open>u\<close> first); the edge's
  attribute dict is the existing one, or a new empty one, updated with \<open>attr\<close>.
\<close>

definition add_edge :: "qubit \<Rightarrow> qubit \<Rightarrow> edge_data \<Rightarrow> digraph \<Rightarrow> digraph" where
  "add_edge u v attr g =
     (let g' = add_node v (add_node u g);
          nbrs = (case map_of g' u of None \<Rightarrow> [] | Some ns \<Rightarrow> ns);
          datadict = (case map_of nbrs v of None \<Rightarrow> Map.empty | Some d \<Rightarrow> d) ++ attr
      in AList.update u (AList.update v datadict nbrs) g')"

text \<open>\<open>G[u][v][key] = val\<close>: a \<open>KeyError\<close> when the graph has no edge \<open>(u, v)\<close>.\<close>

definition set_edge_attr ::
  "qubit \<Rightarrow> qubit \<Rightarrow> string \<Rightarrow> attr_value \<Rightarrow> digraph \<Rightarrow> error + digraph" where
  "set_edge_attr u v key val g =
     (case map_of g u of
        None \<Rightarrow> Inl (KeyError ''node'')
      | Some nbrs \<Rightarrow>
          (case map_of nbrs v of
             None \<Rightarrow> Inl (KeyError ''node'')
           | Some d \<Rightarrow> Inr (AList.update u (AList.update v (d(key \<mapsto> val)) nbrs) g)))"

text \<open>
  \<open>for u, v in G.edges: body\<close>. The edge view is live: it walks the dict of the nodes
  and, for each node it reaches, the dict of the neighbours that node has at that
  moment. Python raises \<open>RuntimeError\<close> (dictionary changed size during iteration) when
  a dict gains a key while it is walked: here, when the body adds a node, or adds a
  neighbour to the node whose neighbours are being walked. The error is raised as soon as
  the body has returned; Python raises it when the walk takes its next step.
\<close>

definition walk_step ::
  "(qubit \<Rightarrow> qubit \<Rightarrow> digraph \<Rightarrow> error + digraph) \<Rightarrow> qubit \<Rightarrow> qubit \<Rightarrow> digraph \<Rightarrow> error + digraph" where
  "walk_step body n v g =
     (case body n v g of
        Inl e \<Rightarrow> Inl e
      | Inr g' \<Rightarrow>
          if length (nodes g') \<noteq> length (nodes g)
             \<or> length (successors g' n) \<noteq> length (successors g n)
          then Inl RuntimeError
          else Inr g')"

definition for_each_edge ::
  "(qubit \<Rightarrow> qubit \<Rightarrow> digraph \<Rightarrow> error + digraph) \<Rightarrow> digraph \<Rightarrow> error + digraph" where
  "for_each_edge body g =
     for_each (\<lambda>n g'. for_each (walk_step body n) (successors g' n) g') (nodes g) g"

section \<open>The store of graph objects\<close>

text \<open>
  Graphs are mutable objects that validators and passes keep by reference. The store is
  the list of the graph objects allocated so far; a reference is an index into it.
  \<open>G.copy()\<close> allocates a new graph with new adjacency and attribute dicts holding the
  same keys and values.
\<close>

type_synonym ref = nat

type_synonym store = "digraph list"

definition copy :: "ref \<Rightarrow> store \<Rightarrow> ref \<times> store" where
  "copy a h = (length h, h @ [h ! a])"

text \<open>Running a computation that mutates the one graph object at reference \<open>a\<close>.\<close>

definition mutate :: "ref \<Rightarrow> (digraph \<Rightarrow> error + digraph) \<Rightarrow> store \<Rightarrow> error + store" where
  "mutate a f h = (case f (h ! a) of Inl e \<Rightarrow> Inl e | Inr g \<Rightarrow> Inr (h[a := g]))"

section \<open>Device capabilities\<close>

text \<open>
  \<open>singledispatch\<close> selects on the class of the capabilities object; \<open>OtherDevice\<close> is
  any class with no registered override. Of the capabilities only the fields read by the
  functions below are kept: \<open>standardized.twoQubitProperties\<close> maps an edge key to the
  \<open>gateName\<close>s of its \<open>twoQubitGateFidelity\<close> entries.
\<close>

datatype family = Ionq | Iqm | Rigetti | Quera | OtherDevice

record device_capabilities =
  family :: family
  twoQubitProperties :: "string \<rightharpoonup> string list"
  nativeGateSet :: "string list"

datatype emulation_pass =
    ConnectivityValidator ref
  | GateConnectivityValidator ref
  | LexiRoutingPass ref
  | TketCompilerPass "(qubit \<times> qubit) list"
  | NoOpPass

section \<open>\<open>connectivity_validator\<close> (aws\_emulation.py)\<close>

text \<open>The loop of the IQM override: \<open>for edge in G.edges: G.add_edge(edge[1], edge[0])\<close>.\<close>

definition add_back_edges :: "digraph \<Rightarrow> error + digraph" where
  "add_back_edges g = for_each_edge (\<lambda>u v g'. Inr (add_edge v u Map.empty g')) g"

definition connectivity_validator ::
  "device_capabilities \<Rightarrow> ref \<Rightarrow> store \<Rightarrow> error + (emulation_pass \<times> store)" where
  "connectivity_validator properties connectivity_graph h =
     (case family properties of
        Iqm \<Rightarrow>
          (let (g, h1) = copy connectivity_graph h
           in case mutate g add_back_edges h1 of
                Inl e \<Rightarrow> Inl e
              | Inr h2 \<Rightarrow> Inr (ConnectivityValidator g, h2))
      | _ \<Rightarrow> Inr (ConnectivityValidator connectivity_graph, h))"

text \<open>The graph a validator or routing pass holds, read from the store.\<close>

fun pass_graph :: "emulation_pass \<times> store \<Rightarrow> digraph" where
  "pass_graph (ConnectivityValidator r, h) = h ! r"
| "pass_graph (GateConnectivityValidator r, h) = h ! r"
| "pass_graph (LexiRoutingPass r, h) = h ! r"
| "pass_graph (_, h) = []"

section \<open>\<open>gate_connectivity_validator\<close> (aws\_emulation.py)\<close>

text \<open>\<open>str\<close> of a non-negative integer, and the calibration key \<open>"-".join([str(u), str(v)])\<close>.\<close>

definition digit_char :: "nat \<Rightarrow> char" where
  "digit_char d = ''0123456789'' ! d"

fun str_nat :: "nat \<Rightarrow> string" where
  "str_nat n = (if n < 10 then [digit_char n] else str_nat (n div 10) @ [digit_char (n mod 10)])"

definition edge_key :: "qubit \<Rightarrow> qubit \<Rightarrow> string" where
  "edge_key u v = str_nat u @ ''-'' @ str_nat v"

text \<open>
  \<open>_get_qpu_gate_translation\<close>: a fixed table per device class, looked up with
  \<open>translations.get(gate_name, gate_name)\<close>; the default is the identity.
\<close>

definition get_qpu_gate_translation :: "device_capabilities \<Rightarrow> string \<Rightarrow> string" where
  "get_qpu_gate_translation properties gate_name =
     (case family properties of
        Rigetti \<Rightarrow> (case map_of [(''CPHASE'', ''CPhaseShift'')] gate_name of
                      None \<Rightarrow> gate_name | Some t \<Rightarrow> t)
      | Ionq \<Rightarrow> (case map_of [(''GPI'', ''GPi''), (''GPI2'', ''GPi2'')] gate_name of
                   None \<Rightarrow> gate_name | Some t \<Rightarrow> t)
      | _ \<Rightarrow> gate_name)"

definition get_qpu_gate_translations :: "device_capabilities \<Rightarrow> string list \<Rightarrow> string list" where
  "get_qpu_gate_translations properties gate_names =
     map (get_qpu_gate_translation properties) gate_names"

abbreviation supported_gates_key :: string where
  "supported_gates_key \<equiv> ''supported_gates''"

text \<open>
  The first loop of the Rigetti/IQM override (lines 148-159): every edge of the copy gets
  a \<open>supported_gates\<close> attribute, the empty set when the calibration data has no entry
  under the edge's key.
\<close>

definition populate_edge ::
  "device_capabilities \<Rightarrow> qubit \<Rightarrow> qubit \<Rightarrow> digraph \<Rightarrow> error + digraph" where
  "populate_edge properties u v g =
     (case twoQubitProperties properties (edge_key u v) of
        None \<Rightarrow> set_edge_attr u v supported_gates_key (GateSet {}) g
      | Some gate_names \<Rightarrow>
          set_edge_attr u v supported_gates_key
            (GateSet (set (get_qpu_gate_translations properties gate_names))) g)"

definition populate_supported_gates :: "device_capabilities \<Rightarrow> digraph \<Rightarrow> error + digraph" where
  "populate_supported_gates properties g = for_each_edge (populate_edge properties) g"

text \<open>
  The test of the second loop:
  \<open>(v, u) not in G.edges or G[v][u].get("supported_gates") in [None, set()]\<close>.
\<close>

definition reverse_unpopulated :: "digraph \<Rightarrow> qubit \<Rightarrow> qubit \<Rightarrow> bool" where
  "reverse_unpopulated g v u =
     (case get_edge_data g v u of
        None \<Rightarrow> True
      | Some d \<Rightarrow>
          (case d supported_gates_key of
             None \<Rightarrow> True
           | Some (GateSet s) \<Rightarrow> s = {}
           | Some (Opaque x) \<Rightarrow> False))"

text \<open>
  \<open>set(G[u][v]["supported_gates"])\<close>: a \<open>KeyError\<close> when the attribute is missing, a
  \<open>TypeError\<close> when its value cannot be iterated.
\<close>

definition read_supported_gates :: "digraph \<Rightarrow> qubit \<Rightarrow> qubit \<Rightarrow> error + string set" where
  "read_supported_gates g u v =
     (case get_edge_data g u v of
        None \<Rightarrow> Inl (KeyError ''node'')
      | Some d \<Rightarrow>
          (case d supported_gates_key of
             None \<Rightarrow> Inl (KeyError supported_gates_key)
           | Some (GateSet s) \<Rightarrow> Inr s
           | Some (Opaque x) \<Rightarrow> Inl TypeError))"

definition synthesize_back_edge :: "qubit \<Rightarrow> qubit \<Rightarrow> digraph \<Rightarrow> error + digraph" where
  "synthesize_back_edge u v g =
     (if reverse_unpopulated g v u
      then (case read_supported_gates g u v of
              Inl e \<Rightarrow> Inl e
            | Inr s \<Rightarrow> Inr (add_edge v u [supported_gates_key \<mapsto> GateSet s] g))
      else Inr g)"

definition synthesize_back_edges :: "digraph \<Rightarrow> error + digraph" where
  "synthesize_back_edges g = for_each_edge synthesize_back_edge g"

definition rigetti_iqm_gate_connectivity :: "device_capabilities \<Rightarrow> digraph \<Rightarrow> error + digraph" where
  "rigetti_iqm_gate_connectivity properties g =
     (case populate_supported_gates properties g of
        Inl e \<Rightarrow> Inl e
      | Inr g1 \<Rightarrow> synthesize_back_edges g1)"

text \<open>The IonQ override: every edge gets the translated native gate set.\<close>

definition ionq_gate_connectivity :: "device_capabilities \<Rightarrow> digraph \<Rightarrow> error + digraph" where
  "ionq_gate_connectivity properties g =
     (let native_gates = get_qpu_gate_translations properties (nativeGateSet properties)
      in for_each_edge
           (\<lambda>u v. set_edge_attr u v supported_gates_key (GateSet (set native_gates))) g)"

definition gate_connectivity_validator ::
  "device_capabilities \<Rightarrow> ref \<Rightarrow> store \<Rightarrow> error + (emulation_pass \<times> store)" where
  "gate_connectivity_validator properties connectivity_graph h =
     (if family properties = Iqm \<or> family properties = Rigetti
      then (let (g, h1) = copy connectivity_graph h
            in case mutate g (rigetti_iqm_gate_connectivity properties) h1 of
                 Inl e \<Rightarrow> Inl e
               | Inr h2 \<Rightarrow> Inr (GateConnectivityValidator g, h2))
      else if family properties = Ionq
      then (let (g, h1) = copy connectivity_graph h
            in case mutate g (ionq_gate_connectivity properties) h1 of
                 Inl e \<Rightarrow> Inl e
               | Inr h2 \<Rightarrow> Inr (GateConnectivityValidator g, h2))
      else Inl NotImplementedError)"

text \<open>The gate set an edge carries, for stating results: empty when there is none.\<close>

definition supported_gates :: "digraph \<Rightarrow> qubit \<Rightarrow> qubit \<Rightarrow> string set" where
  "supported_gates g u v =
     (case get_edge_data g u v of
        None \<Rightarrow> {}
      | Some d \<Rightarrow> (case d supported_gates_key of Some (GateSet s) \<Rightarrow> s | _ \<Rightarrow> {}))"

text \<open>The calibrated gate names of an edge key, translated; empty without an entry.\<close>

definition calibrated_gates :: "device_capabilities \<Rightarrow> qubit \<Rightarrow> qubit \<Rightarrow> string set" where
  "calibrated_gates properties u v =
     (case twoQubitProperties properties (edge_key u v) of
        None \<Rightarrow> {}
      | Some gate_names \<Rightarrow> set (get_qpu_gate_translations properties gate_names))"

text \<open>
  What the two loops compute, as functions of the graph they start from. After the first
  loop an edge's attribute dict is the input's with \<open>supported_gates\<close> set to the
  calibrated gates of its key (\<open>populated\<close>). The second loop leaves every edge with
  the gate set \<open>back_edge_gates\<close>: its own when that is not empty, the reverse edge's
  otherwise (\<open>synthesized\<close>).
\<close>

definition populated :: "device_capabilities \<Rightarrow> digraph \<Rightarrow> qubit \<Rightarrow> qubit \<Rightarrow> edge_data option" where
  "populated properties g a b =
     map_option (\<lambda>d. d(supported_gates_key \<mapsto> GateSet (calibrated_gates properties a b)))
       (get_edge_data g a b)"

definition forward_gates :: "device_capabilities \<Rightarrow> digraph \<Rightarrow> qubit \<Rightarrow> qubit \<Rightarrow> string set" where
  "forward_gates properties g a b = (if has_edge g a b then calibrated_gates properties a b else {})"

definition back_edge_gates :: "digraph \<Rightarrow> qubit \<Rightarrow> qubit \<Rightarrow> string set" where
  "back_edge_gates g a b =
     (if supported_gates g a b = {} then supported_gates g b a else supported_gates g a b)"

definition synthesized :: "digraph \<Rightarrow> qubit \<Rightarrow> qubit \<Rightarrow> edge_data option" where
  "synthesized g a b =
     (case get_edge_data g a b of
        Some d \<Rightarrow> Some (d(supported_gates_key \<mapsto> GateSet (back_edge_gates g a b)))
      | None \<Rightarrow>
          (if has_edge g b a then Some [supported_gates_key \<mapsto> GateSet (back_edge_gates g a b)]
           else None))"

text \<open>Every edge carries a set under \<open>supported_gates\<close>: the state the first loop leaves.\<close>

definition gated :: "digraph \<Rightarrow> bool" where
  "gated g =
     (\<forall>a b d. get_edge_data g a b = Some d \<longrightarrow> (\<exists>s. d supported_gates_key = Some (GateSet s)))"

section \<open>\<open>lexi_mapping_routing_pass\<close> and \<open>create_nativization_pass\<close> (aws\_emulation.py)\<close>

definition lexi_mapping_routing_pass ::
  "device_capabilities \<Rightarrow> ref \<Rightarrow> store \<Rightarrow> error + (emulation_pass \<times> store)" where
  "lexi_mapping_routing_pass properties connectivity_graph h =
     (if family properties = Rigetti \<or> family properties = Ionq
      then Inr (LexiRoutingPass connectivity_graph, h)
      else if family properties = Iqm
      then (let (g, h1) = copy connectivity_graph h
            in case mutate g add_back_edges h1 of
                 Inl e \<Rightarrow> Inl e
               | Inr h2 \<Rightarrow> Inr (LexiRoutingPass g, h2))
      else Inl NotImplementedError)"

text \<open>\<open>list(G.edges)\<close>, from which the IQM override builds the \<open>Architecture\<close>.\<close>

definition edges :: "digraph \<Rightarrow> (qubit \<times> qubit) list" where
  "edges g = concat (map (\<lambda>(n, nbrs). map (\<lambda>(v, d). (n, v)) nbrs) g)"

text \<open>
  Of the pass list the IQM override builds, only the architecture depends on the graph;
  \<open>TketCompilerPass\<close> is kept as the edge list the architecture is built from.
\<close>

definition create_nativization_pass ::
  "device_capabilities \<Rightarrow> ref \<Rightarrow> store \<Rightarrow> error + (emulation_pass \<times> store)" where
  "create_nativization_pass properties connectivity_graph h =
     (if family properties = Iqm
      then (let (g, h1) = copy connectivity_graph h
            in case mutate g add_back_edges h1 of
                 Inl e \<Rightarrow> Inl e
               | Inr h2 \<Rightarrow> Inr (TketCompilerPass (edges (h2 ! g)), h2))
      else Inr (NoOpPass, h))"

section \<open>Example devices and graphs\<close>

text \<open>
  Three qubits with the couplings \<open>(0,1)\<close> and \<open>(0,2)\<close> reported in one direction only.
\<close>

definition one_way_graph :: digraph where
  "one_way_graph = [(0, [(1, Map.empty), (2, Map.empty)]), (1, []), (2, [])]"

definition iqm_device :: device_capabilities where
  "iqm_device = \<lparr>family = Iqm, twoQubitProperties = [''0-1'' \<mapsto> [''CZ'']], nativeGateSet = [''cz'', ''prx'']\<rparr>"

text \<open>
  A Rigetti-style graph with both directions of every coupling, and calibration data
  for the key \<open>0-1\<close> only.
\<close>

definition both_ways_graph :: digraph where
  "both_ways_graph =
     [(0, [(1, Map.empty), (2, Map.empty)]), (1, [(0, Map.empty)]), (2, [(0, Map.empty)])]"

definition rigetti_device :: device_capabilities where
  "rigetti_device = \<lparr>family = Rigetti,
      twoQubitProperties = [''0-1'' \<mapsto> [''CZ'', ''CPHASE'']],
      nativeGateSet = [''rx'', ''rz'', ''cz'']\<rparr>"



section \<open>\<open>GateConnectivityCriterion.validate\<close> (gate\_connectivity\_criterion.py)\<close>

text \<open>
  An instruction's operator is a compiler directive opening or closing a verbatim box, a
  gate with its name and \<open>qubit_count\<close>, or anything else (noise, measurement).
\<close>

datatype operator = StartVerbatimBox | EndVerbatimBox | Gate string nat | OtherOperator

record instruction =
  operator :: operator
  control :: "qubit list"
  target :: "qubit list"

definition unrecognized_targetting :: error where
  "unrecognized_targetting =
     ValueError [Lit ''Unrecognized qubit targetting setup for a 2 qubit gate.'']"

definition not_connected :: "qubit \<Rightarrow> qubit \<Rightarrow> error" where
  "not_connected e0 e1 =
     ValueError [IntVal (int e0), Lit '' is not connected to '', IntVal (int e1),
                 Lit '' on this device.'']"

definition gate_not_supported :: "qubit \<Rightarrow> qubit \<Rightarrow> string \<Rightarrow> error" where
  "gate_not_supported e0 e1 gate_name =
     ValueError [Lit ''Qubit pair ('', IntVal (int e0), Lit '', '', IntVal (int e1),
                 Lit '') does not support gate '', StrVal gate_name, Lit '' on this device.'']"

definition qubit_not_in_topology :: "qubit \<Rightarrow> error" where
  "qubit_not_in_topology q =
     ValueError [Lit ''Qubit '', IntVal (int q), Lit '' does not exist in the device topology.'']"

definition no_end_verbatim_box :: "nat \<Rightarrow> error" where
  "no_end_verbatim_box idx =
     ValueError [Lit ''No end verbatim box found at index '', IntVal (int idx),
                 Lit '' in the circuit.'']"

text \<open>
  The checks of \<open>validate_instruction_connectivity\<close> once the edge \<open>e\<close> is chosen:
  the edge must exist, and the gate must be among its \<open>supported_gates\<close>.
\<close>

definition check_edge :: "digraph \<Rightarrow> string \<Rightarrow> qubit \<times> qubit \<Rightarrow> error + unit" where
  "check_edge g gate_name e =
     (case get_edge_data g (fst e) (snd e) of
        None \<Rightarrow> Inl (not_connected (fst e) (snd e))
      | Some d \<Rightarrow>
          (case d supported_gates_key of
             None \<Rightarrow> Inl (KeyError supported_gates_key)
           | Some (Opaque x) \<Rightarrow> Inl TypeError
           | Some (GateSet gates) \<Rightarrow>
               if gate_name \<notin> gates then Inl (gate_not_supported (fst e) (snd e) gate_name)
               else Inr ()))"

definition validate_instruction_connectivity ::
  "digraph \<Rightarrow> string \<Rightarrow> qubit list \<Rightarrow> qubit list \<Rightarrow> error + unit" where
  "validate_instruction_connectivity g gate_name control_qubits target_qubits =
     (if length control_qubits = 1 \<and> length target_qubits = 1
      then check_edge g gate_name (control_qubits ! 0, target_qubits ! 0)
      else if length control_qubits = 0 \<and> length target_qubits = 2
      then check_edge g gate_name (target_qubits ! 0, target_qubits ! 1)
      else Inl unrecognized_targetting)"

text \<open>The body of the \<open>while\<close> loop: what is checked of one instruction inside a box.\<close>

definition check_instruction :: "digraph \<Rightarrow> instruction \<Rightarrow> error + unit" where
  "check_instruction g i =
     (case operator i of
        Gate name qubit_count \<Rightarrow>
          if qubit_count = 2
          then validate_instruction_connectivity g name (control i) (target i)
          else (case target i of
                  [] \<Rightarrow> Inl IndexError
                | target_qubit # _ \<Rightarrow>
                    if \<not> has_node g target_qubit then Inl (qubit_not_in_topology target_qubit)
                    else Inr ())
      | _ \<Rightarrow> Inr ())"

text \<open>
  The \<open>while\<close> loop, on the instructions that follow the opening directive: it stops at
  the first \<open>EndVerbatimBox\<close> or at the end of the circuit and returns how many
  instructions it has stepped over.
\<close>

fun scan_box :: "digraph \<Rightarrow> instruction list \<Rightarrow> error + nat" where
  "scan_box g [] = Inr 0"
| "scan_box g (i # rest) =
     (if operator i = EndVerbatimBox then Inr 0
      else (case check_instruction g i of
              Inl e \<Rightarrow> Inl e
            | Inr _ \<Rightarrow> (case scan_box g rest of Inl e \<Rightarrow> Inl e | Inr k \<Rightarrow> Inr (Suc k))))"

text \<open>
  One round of the \<open>for\<close> loop. The increments of \<open>idx\<close> inside the body do not
  change the indices \<open>range\<close> yields, so every \<open>StartVerbatimBox\<close> starts a scan.
\<close>

definition validate_at :: "digraph \<Rightarrow> instruction list \<Rightarrow> nat \<Rightarrow> error + unit" where
  "validate_at g instructions idx =
     (if operator (instructions ! idx) = StartVerbatimBox
      then (case scan_box g (drop (idx + 1) instructions) of
              Inl e \<Rightarrow> Inl e
            | Inr k \<Rightarrow>
                (let idx' = idx + 1 + k
                 in if idx' = length instructions
                       \<or> operator (instructions ! idx') \<noteq> EndVerbatimBox
                    then Inl (no_end_verbatim_box idx')
                    else Inr ()))
      else Inr ())"

definition validate :: "digraph \<Rightarrow> instruction list \<Rightarrow> error + unit" where
  "validate g instructions =
     for_each (\<lambda>idx _. validate_at g instructions idx) [0..<length instructions] ()"

text \<open>Example: a box that is never closed, holding a \<open>CNot\<close> on an uncoupled pair.\<close>

definition unclosed_circuit :: "instruction list" where
  "unclosed_circuit =
     [\<lparr>operator = StartVerbatimBox, control = [], target = []\<rparr>,
      \<lparr>operator = Gate ''CNot'' 2, control = [], target = [0, 1]\<rparr>]"

definition disconnected_graph :: digraph where
  "disconnected_graph = [(0, []), (1, [])]"

definition cz_graph :: digraph where
  "cz_graph = [(0, [(1, [supported_gates_key \<mapsto> GateSet {''CZ''}])]), (1, [])]"

definition unclosed_cz_circuit :: "instruction list" where
  "unclosed_cz_circuit =
     [\<lparr>operator = StartVerbatimBox, control = [], target = []\<rparr>,
      \<lparr>operator = Gate ''CZ'' 2, control = [], target = [0, 1]\<rparr>]"

text \<open>
  For stating what \<open>validate\<close> returns. The instructions the \<open>while\<close> loop steps over
  are those after a \<open>StartVerbatimBox\<close> with no \<open>EndVerbatimBox\<close> from there up to
  and including themselves (\<open>boxed\<close>); a \<open>StartVerbatimBox\<close> is left open when no
  \<open>EndVerbatimBox\<close> follows it at all (\<open>unclosed\<close>).
\<close>

definition boxed :: "instruction list \<Rightarrow> nat \<Rightarrow> bool" where
  "boxed instructions j =
     (j < length instructions \<and>
      (\<exists>idx \<in> set [0..<j]. operator (instructions ! idx) = StartVerbatimBox \<and>
          EndVerbatimBox \<notin> set (map operator (drop (Suc idx) (take (Suc j) instructions)))))"

definition unclosed :: "instruction list \<Rightarrow> nat \<Rightarrow> bool" where
  "unclosed instructions i =
     (i < length instructions \<and> operator (instructions ! i) = StartVerbatimBox \<and>
      EndVerbatimBox \<notin> set (map operator (drop (Suc i) instructions)))"

text \<open>Example: a box opened twice and closed once.\<close>

definition nested_circuit :: "instruction list" where
  "nested_circuit =
     [\<lparr>operator = StartVerbatimBox, control = [], target = []\<rparr>,
      \<lparr>operator = StartVerbatimBox, control = [], target = []\<rparr>,
      \<lparr>operator = EndVerbatimBox, control = [], target = []\<rparr>]"

section \<open>AHS device constants (aws\_emulation.py)\<close>

text \<open>
  The capabilities of a QuEra device, as \<open>properties.dict()\<close> gives them: only the
  fields the builder reads. Decimals are the numbers they denote. The local block of
  \<open>rydberg\<close> is optional.
\<close>

record geometry =
  numberSitesMax :: real
  spacingRadialMin :: real
  spacingVerticalMin :: real
  positionResolution :: real

record area =
  width :: real
  height :: real

record rydberg_global =
  timeMin :: real
  timeMax :: real
  timeResolution :: real
  timeDeltaMin :: real
  rabiFrequencyRange :: "real \<times> real"
  rabiFrequencyResolution :: real
  rabiFrequencySlewRateMax :: real
  phaseRange :: "real \<times> real"
  phaseResolution :: real
  detuningRange :: "real \<times> real"
  detuningResolution :: real
  detuningSlewRateMax :: real

text \<open>
  The fields of \<open>rydbergLocal\<close>; the prefix keeps them apart from the fields of the same
  name in \<open>rydbergGlobal\<close> and \<open>geometry\<close>.
\<close>

record rydberg_local =
  local_spacingRadialMin :: real
  local_timeResolution :: real
  local_timeDeltaMin :: real
  local_detuningRange :: "real \<times> real"
  local_detuningSlewRateMax :: real
  local_numberLocalDetuningSitesMax :: real
  local_siteCoefficientRange :: "real \<times> real"

record quera_capabilities =
  qubitCount :: real
  lattice_area :: area
  lattice_geometry :: geometry
  rydbergGlobal :: rydberg_global
  rydbergLocal :: "rydberg_local option"

datatype const_value = Num real | Flag bool

text \<open>
  The dict \<open>capabilities\<close> the builder fills, in the order of its assignments; the keys
  are distinct, so each assignment appends an entry.
\<close>

definition global_entries :: "quera_capabilities \<Rightarrow> (string \<times> const_value) list" where
  "global_entries properties =
     (let geometry = lattice_geometry properties;
          area = lattice_area properties;
          rydberg_global = rydbergGlobal properties
      in [(''MAX_SITES'', Num (numberSitesMax geometry)),
          (''MIN_DISTANCE'', Num (spacingRadialMin geometry)),
          (''MIN_ROW_DISTANCE'', Num (spacingVerticalMin geometry)),
          (''SITE_PRECISION'', Num (positionResolution geometry)),
          (''BOUNDING_BOX_SIZE_X'', Num (width area)),
          (''BOUNDING_BOX_SIZE_Y'', Num (height area)),
          (''MAX_FILLED_SITES'', Num (qubitCount properties)),
          (''MIN_TIME'', Num (timeMin rydberg_global)),
          (''MAX_TIME'', Num (timeMax rydberg_global)),
          (''GLOBAL_TIME_PRECISION'', Num (timeResolution rydberg_global)),
          (''GLOBAL_MIN_TIME_SEPARATION'', Num (timeDeltaMin rydberg_global)),
          (''GLOBAL_AMPLITUDE_VALUE_MIN'', Num (fst (rabiFrequencyRange rydberg_global))),
          (''GLOBAL_AMPLITUDE_VALUE_MAX'', Num (snd (rabiFrequencyRange rydberg_global))),
          (''GLOBAL_AMPLITUDE_VALUE_PRECISION'', Num (rabiFrequencyResolution rydberg_global)),
          (''GLOBAL_AMPLITUDE_SLOPE_MAX'', Num (rabiFrequencySlewRateMax rydberg_global)),
          (''GLOBAL_PHASE_VALUE_MIN'', Num (fst (phaseRange rydberg_global))),
          (''GLOBAL_PHASE_VALUE_MAX'', Num (snd (phaseRange rydberg_global))),
          (''GLOBAL_PHASE_VALUE_PRECISION'', Num (phaseResolution rydberg_global)),
          (''GLOBAL_DETUNING_VALUE_MIN'', Num (fst (detuningRange rydberg_global))),
          (''GLOBAL_DETUNING_VALUE_MAX'', Num (snd (detuningRange rydberg_global))),
          (''GLOBAL_DETUNING_VALUE_PRECISION'', Num (detuningResolution rydberg_global)),
          (''GLOBAL_DETUNING_SLOPE_MAX'', Num (detuningSlewRateMax rydberg_global))])"

definition local_entries :: "rydberg_local \<Rightarrow> (string \<times> const_value) list" where
  "local_entries rydberg_local =
     [(''LOCAL_RYDBERG_CAPABILITIES'', Flag True),
      (''LOCAL_MIN_DISTANCE_BETWEEN_SHIFTED_SITES'', Num (local_spacingRadialMin rydberg_local)),
      (''LOCAL_TIME_PRECISION'', Num (local_timeResolution rydberg_local)),
      (''LOCAL_MIN_TIME_SEPARATION'', Num (local_timeDeltaMin rydberg_local)),
      (''LOCAL_MAGNITUDE_SEQUENCE_VALUE_MIN'', Num (fst (local_detuningRange rydberg_local))),
      (''LOCAL_MAGNITUDE_SEQUENCE_VALUE_MAX'', Num (snd (local_detuningRange rydberg_local))),
      (''LOCAL_MAGNITUDE_SLOPE_MAX'', Num (local_detuningSlewRateMax rydberg_local)),
      (''LOCAL_MAX_NONZERO_PATTERN_VALUES'', Num (local_numberLocalDetuningSitesMax rydberg_local)),
      (''MAGNITUDE_PATTERN_VALUE_MIN'', Num (fst (local_siteCoefficientRange rydberg_local))),
      (''MAGNITUDE_PATTERN_VALUE_MAX'', Num (snd (local_siteCoefficientRange rydberg_local)))]"

definition capabilities_dict :: "quera_capabilities \<Rightarrow> (string \<times> const_value) list" where
  "capabilities_dict properties =
     global_entries properties @
     (case rydbergLocal properties of
        None \<Rightarrow> []
      | Some rydberg_local \<Rightarrow> local_entries rydberg_local)"

text \<open>
  \<open>DeviceCapabilitiesConstants\<close>, with the fields the builder can set. The class is
  declared outside the files at hand.
\<close>

record DeviceCapabilitiesConstants =
  MAX_SITES :: real
  MIN_DISTANCE :: real
  MIN_ROW_DISTANCE :: real
  SITE_PRECISION :: real
  BOUNDING_BOX_SIZE_X :: real
  BOUNDING_BOX_SIZE_Y :: real
  MAX_FILLED_SITES :: real
  MIN_TIME :: real
  MAX_TIME :: real
  GLOBAL_TIME_PRECISION :: real
  GLOBAL_MIN_TIME_SEPARATION :: real
  GLOBAL_AMPLITUDE_VALUE_MIN :: real
  GLOBAL_AMPLITUDE_VALUE_MAX :: real
  GLOBAL_AMPLITUDE_VALUE_PRECISION :: real
  GLOBAL_AMPLITUDE_SLOPE_MAX :: real
  GLOBAL_PHASE_VALUE_MIN :: real
  GLOBAL_PHASE_VALUE_MAX :: real
  GLOBAL_PHASE_VALUE_PRECISION :: real
  GLOBAL_DETUNING_VALUE_MIN :: real
  GLOBAL_DETUNING_VALUE_MAX :: real
  GLOBAL_DETUNING_VALUE_PRECISION :: real
  GLOBAL_DETUNING_SLOPE_MAX :: real
  LOCAL_RYDBERG_CAPABILITIES :: bool
  LOCAL_MIN_DISTANCE_BETWEEN_SHIFTED_SITES :: "real option"
  LOCAL_TIME_PRECISION :: "real option"
  LOCAL_MIN_TIME_SEPARATION :: "real option"
  LOCAL_MAGNITUDE_SEQUENCE_VALUE_MIN :: "real option"
  LOCAL_MAGNITUDE_SEQUENCE_VALUE_MAX :: "real option"
  LOCAL_MAGNITUDE_SLOPE_MAX :: "real option"
  LOCAL_MAX_NONZERO_PATTERN_VALUES :: "real option"
  MAGNITUDE_PATTERN_VALUE_MIN :: "real option"
  MAGNITUDE_PATTERN_VALUE_MAX :: "real option"

definition required_field :: "(string \<times> const_value) list \<Rightarrow> string \<Rightarrow> real" where
  "required_field d k = (case map_of d k of Some (Num x) \<Rightarrow> x | _ \<Rightarrow> 0)"

definition optional_field :: "(string \<times> const_value) list \<Rightarrow> string \<Rightarrow> real option" where
  "optional_field d k = (case map_of d k of Some (Num x) \<Rightarrow> Some x | _ \<Rightarrow> None)"

definition flag_field :: "(string \<times> const_value) list \<Rightarrow> string \<Rightarrow> bool" where
  "flag_field d k = (case map_of d k of Some (Flag b) \<Rightarrow> b | _ \<Rightarrow> False)"

text \<open>
  Modelled from the spec: \<open>DeviceCapabilitiesConstants.parse_obj\<close>, whose class is not
  among the files. A local-detuning constant that the dict does not hold takes the
  absent sentinel \<open>None\<close>, and the flag \<open>LOCAL_RYDBERG_CAPABILITIES\<close> is false unless
  the dict sets it (section 4.4 of the spec, and the expected record of
  \<open>test_create_ahs_criterion_with_no_local_rydberg\<close>). The builder always supplies the
  other fields.
\<close>

definition parse_obj :: "(string \<times> const_value) list \<Rightarrow> DeviceCapabilitiesConstants" where
  "parse_obj d =
     \<lparr>MAX_SITES = required_field d ''MAX_SITES'',
      MIN_DISTANCE = required_field d ''MIN_DISTANCE'',
      MIN_ROW_DISTANCE = required_field d ''MIN_ROW_DISTANCE'',
      SITE_PRECISION = required_field d ''SITE_PRECISION'',
      BOUNDING_BOX_SIZE_X = required_field d ''BOUNDING_BOX_SIZE_X'',
      BOUNDING_BOX_SIZE_Y = required_field d ''BOUNDING_BOX_SIZE_Y'',
      MAX_FILLED_SITES = required_field d ''MAX_FILLED_SITES'',
      MIN_TIME = required_field d ''MIN_TIME'',
      MAX_TIME = required_field d ''MAX_TIME'',
      GLOBAL_TIME_PRECISION = required_field d ''GLOBAL_TIME_PRECISION'',
      GLOBAL_MIN_TIME_SEPARATION = required_field d ''GLOBAL_MIN_TIME_SEPARATION'',
      GLOBAL_AMPLITUDE_VALUE_MIN = required_field d ''GLOBAL_AMPLITUDE_VALUE_MIN'',
      GLOBAL_AMPLITUDE_VALUE_MAX = required_field d ''GLOBAL_AMPLITUDE_VALUE_MAX'',
      GLOBAL_AMPLITUDE_VALUE_PRECISION = required_field d ''GLOBAL_AMPLITUDE_VALUE_PRECISION'',
      GLOBAL_AMPLITUDE_SLOPE_MAX = required_field d ''GLOBAL_AMPLITUDE_SLOPE_MAX'',
      GLOBAL_PHASE_VALUE_MIN = required_field d ''GLOBAL_PHASE_VALUE_MIN'',
      GLOBAL_PHASE_VALUE_MAX = required_field d ''GLOBAL_PHASE_VALUE_MAX'',
      GLOBAL_PHASE_VALUE_PRECISION = required_field d ''GLOBAL_PHASE_VALUE_PRECISION'',
      GLOBAL_DETUNING_VALUE_MIN = required_field d ''GLOBAL_DETUNING_VALUE_MIN'',
      GLOBAL_DETUNING_VALUE_MAX = required_field d ''GLOBAL_DETUNING_VALUE_MAX'',
      GLOBAL_DETUNING_VALUE_PRECISION = required_field d ''GLOBAL_DETUNING_VALUE_PRECISION'',
      GLOBAL_DETUNING_SLOPE_MAX = required_field d ''GLOBAL_DETUNING_SLOPE_MAX'',
      LOCAL_RYDBERG_CAPABILITIES = flag_field d ''LOCAL_RYDBERG_CAPABILITIES'',
      LOCAL_MIN_DISTANCE_BETWEEN_SHIFTED_SITES =
        optional_field d ''LOCAL_MIN_DISTANCE_BETWEEN_SHIFTED_SITES'',
      LOCAL_TIME_PRECISION = optional_field d ''LOCAL_TIME_PRECISION'',
      LOCAL_MIN_TIME_SEPARATION = optional_field d ''LOCAL_MIN_TIME_SEPARATION'',
      LOCAL_MAGNITUDE_SEQUENCE_VALUE_MIN = optional_field d ''LOCAL_MAGNITUDE_SEQUENCE_VALUE_MIN'',
      LOCAL_MAGNITUDE_SEQUENCE_VALUE_MAX = optional_field d ''LOCAL_MAGNITUDE_SEQUENCE_VALUE_MAX'',
      LOCAL_MAGNITUDE_SLOPE_MAX = optional_field d ''LOCAL_MAGNITUDE_SLOPE_MAX'',
      LOCAL_MAX_NONZERO_PATTERN_VALUES = optional_field d ''LOCAL_MAX_NONZERO_PATTERN_VALUES'',
      MAGNITUDE_PATTERN_VALUE_MIN = optional_field d ''MAGNITUDE_PATTERN_VALUE_MIN'',
      MAGNITUDE_PATTERN_VALUE_MAX = optional_field d ''MAGNITUDE_PATTERN_VALUE_MAX''\<rparr>"

definition get_ahs_device_capabilities :: "quera_capabilities \<Rightarrow> DeviceCapabilitiesConstants" where
  "get_ahs_device_capabilities properties = parse_obj (capabilities_dict properties)"

text \<open>The nine local-detuning constants of a constants record, in the builder's order.\<close>

definition local_detuning_constants :: "DeviceCapabilitiesConstants \<Rightarrow> real option list" where
  "local_detuning_constants c =
     [LOCAL_MIN_DISTANCE_BETWEEN_SHIFTED_SITES c, LOCAL_TIME_PRECISION c,
      LOCAL_MIN_TIME_SEPARATION c, LOCAL_MAGNITUDE_SEQUENCE_VALUE_MIN c,
      LOCAL_MAGNITUDE_SEQUENCE_VALUE_MAX c, LOCAL_MAGNITUDE_SLOPE_MAX c,
      LOCAL_MAX_NONZERO_PATTERN_VALUES c, MAGNITUDE_PATTERN_VALUE_MIN c,
      MAGNITUDE_PATTERN_VALUE_MAX c]"

text \<open>An example device (the numbers of the test fixture), with and without the local block.\<close>

definition aquila_local :: rydberg_local where
  "aquila_local =
     \<lparr>local_spacingRadialMin = 5 / 10 ^ 6, local_timeResolution = 1 / 10 ^ 9,
      local_timeDeltaMin = 1 / 10 ^ 8, local_detuningRange = (0, 125000000),
      local_detuningSlewRateMax = 1256600000000000, local_numberLocalDetuningSitesMax = 200,
      local_siteCoefficientRange = (0, 1)\<rparr>"

definition aquila :: quera_capabilities where
  "aquila =
     \<lparr>qubitCount = 256,
      lattice_area = \<lparr>width = 75 / 10 ^ 6, height = 1 / 10 ^ 4\<rparr>,
      lattice_geometry = \<lparr>numberSitesMax = 256, spacingRadialMin = 4 / 10 ^ 6,
        spacingVerticalMin = 4 / 10 ^ 6, positionResolution = 1 / 10 ^ 7\<rparr>,
      rydbergGlobal = \<lparr>timeMin = 0, timeMax = 4 / 10 ^ 6, timeResolution = 1 / 10 ^ 9,
        timeDeltaMin = 1 / 10 ^ 8, rabiFrequencyRange = (0, 25000000),
        rabiFrequencyResolution = 400, rabiFrequencySlewRateMax = 250000000000000,
        phaseRange = (- 99, 99), phaseResolution = 5 / 10 ^ 7,
        detuningRange = (- 125000000, 125000000), detuningResolution = 2 / 10,
        detuningSlewRateMax = 2500000000000000\<rparr>,
      rydbergLocal = Some aquila_local\<rparr>"

section \<open>Atom arrangement rows (device\_atom\_arrangement.py)\<close>

type_synonym site = "real \<times> real"

definition y_distance :: "site \<Rightarrow> site \<Rightarrow> real" where
  "y_distance site_1 site_2 = \<bar>snd site_1 - snd site_2\<bar>"

definition rows_too_close :: "site \<Rightarrow> site \<Rightarrow> real \<Rightarrow> real \<Rightarrow> error" where
  "rows_too_close s1 s2 row_distance min_allowed_distance =
     ValueError [Lit ''Sites '', SiteVal s1, Lit '' and site '', SiteVal s2,
                 Lit '' have y-separation ('', NumVal row_distance,
                 Lit ''). It must either be exactly zero or not smaller than '',
                 NumVal min_allowed_distance, Lit '' meters'']"

text \<open>The loop over \<open>zip(sorted_sites[:-1], sorted_sites[1:])\<close>.\<close>

fun check_rows :: "real \<Rightarrow> (site \<times> site) list \<Rightarrow> error + unit" where
  "check_rows min_allowed_distance [] = Inr ()"
| "check_rows min_allowed_distance ((s1, s2) # pairs) =
     (let row_distance = y_distance s1 s2
      in if row_distance = 0 then check_rows min_allowed_distance pairs
         else if row_distance < min_allowed_distance
         then Inl (rows_too_close s1 s2 row_distance min_allowed_distance)
         else check_rows min_allowed_distance pairs)"

text \<open>\<open>sorted\<close> is stable, as is \<open>sort_key\<close>; the validator returns its input unchanged.\<close>

definition min_allowed_row_distance :: "DeviceCapabilitiesConstants \<Rightarrow> real" where
  "min_allowed_row_distance capabilities =
     (if LOCAL_RYDBERG_CAPABILITIES capabilities then 2 / 10 ^ 6
      else MIN_ROW_DISTANCE capabilities)"

definition sites_in_rows :: "DeviceCapabilitiesConstants \<Rightarrow> site list \<Rightarrow> error + site list" where
  "sites_in_rows capabilities sites =
     (let sorted_sites = sort_key snd sites;
          min_allowed_distance = min_allowed_row_distance capabilities
      in case check_rows min_allowed_distance (zip (butlast sorted_sites) (tl sorted_sites)) of
           Inl e \<Rightarrow> Inl e
         | Inr _ \<Rightarrow> Inr sites)"

section \<open>Amplitude boundary values (device\_driving\_field.py)\<close>

record time_series =
  times_of :: "real list"
  values_of :: "real list"

record driving_field =
  amplitude :: time_series
  phase :: time_series
  detuning :: time_series

definition amplitude_boundary_error :: "real \<Rightarrow> real \<Rightarrow> error" where
  "amplitude_boundary_error start_value end_value =
     ValueError [Lit ''The values of the Rabi frequency at the first and last time points are '',
                 NumVal start_value, Lit '', '', NumVal end_value,
                 Lit ''; they both must be nonzero.'']"

definition amplitude_start_and_end_values :: "driving_field \<Rightarrow> error + driving_field" where
  "amplitude_start_and_end_values field =
     (let time_series_values = values_of (amplitude field)
      in if time_series_values \<noteq> []
         then (let start_value = hd time_series_values; end_value = last time_series_values
               in if start_value \<noteq> 0 \<or> end_value \<noteq> 0
                  then Inl (amplitude_boundary_error start_value end_value)
                  else Inr field)
         else Inr field)"

section \<open>Noise injection (ahs\_noisy\_pass.py)\<close>

text \<open>
  Floating-point numbers are read as the reals they denote, with no rounding. A division
  by zero, where numpy gives \<open>inf\<close> or \<open>nan\<close>, is outside this reading: the results on
  the quadratic assume \<open>t1 \<noteq> t2\<close> and \<open>t2 \<noteq> 0\<close>. The coefficients of the quadratic
  \<open>f(t) = a*t^2 + b*t + c\<close> fitted to one segment.
\<close>

definition quadratic_coefficients ::
  "real \<Rightarrow> real \<Rightarrow> real \<Rightarrow> real \<Rightarrow> real \<Rightarrow> real \<times> real \<times> real" where
  "quadratic_coefficients t1 t2 v1 v2 fr =
     (if fr \<ge> 1 then (0, 0, v2)
      else (let a = 3 * (v1 + fr * v1 + v2 - fr * v2) / (t1 - t2) ^ 2;
                c = (t2 * v1 * ((2 + 3 * fr) * t1 + t2) + t1 * v2 * (t1 + (2 - 3 * fr) * t2))
                      / (t1 - t2) ^ 2;
                b = (v2 - c - a * t2 ^ 2) / t2
            in (a, b, c)))"

definition quadratic :: "real \<times> real \<times> real \<Rightarrow> real \<Rightarrow> real" where
  "quadratic abc t = (case abc of (a, b, c) \<Rightarrow> a * t ^ 2 + b * t + c)"

text \<open>
  The definite integral of the quadratic over \<open>[t1, t2]\<close>, as the comment in the source
  writes it: the difference of the antiderivative \<open>a/3*t^3 + b/2*t^2 + c*t\<close>.
\<close>

definition antiderivative :: "real \<times> real \<times> real \<Rightarrow> real \<Rightarrow> real" where
  "antiderivative abc t = (case abc of (a, b, c) \<Rightarrow> a / 3 * t ^ 3 + b / 2 * t ^ 2 + c * t)"

definition quadratic_integral :: "real \<times> real \<times> real \<Rightarrow> real \<Rightarrow> real \<Rightarrow> real" where
  "quadratic_integral abc t1 t2 = antiderivative abc t2 - antiderivative abc t1"

text \<open>The area under the straight segment from \<open>(t1, v1)\<close> to \<open>(t2, v2)\<close>.\<close>

definition trapezoid_area :: "real \<Rightarrow> real \<Rightarrow> real \<Rightarrow> real \<Rightarrow> real" where
  "trapezoid_area t1 t2 v1 v2 = (t2 - t1) * (v1 + v2) / 2"

text \<open>The correction fraction of a segment, from its slope.\<close>

definition segment_fraction :: "(real \<Rightarrow> real) \<Rightarrow> real \<Rightarrow> real \<Rightarrow> real \<Rightarrow> real \<Rightarrow> real" where
  "segment_fraction get_frac t1 t2 v1 v2 =
     (let slope = (v2 - v1) / (t2 - t1)
      in if \<bar>slope\<bar> > 0 then get_frac \<bar>slope\<bar> * sgn slope else 1)"

text \<open>\<open>np.linspace(start, stop, num)\<close>.\<close>

definition linspace :: "real \<Rightarrow> real \<Rightarrow> nat \<Rightarrow> real list" where
  "linspace start stop num =
     (if num = 1 then [start]
      else map (\<lambda>k. start + real k * ((stop - start) / real (num - 1))) [0..<num])"

text \<open>
  The values one segment contributes: the quadratic at every grid time \<open>t\<close> with
  \<open>t1 <= t <= t2\<close>.
\<close>

definition segment_values ::
  "(real \<Rightarrow> real) \<Rightarrow> real list \<Rightarrow> (real \<times> real) \<times> (real \<times> real) \<Rightarrow> real list" where
  "segment_values get_frac noisy_amplitude_times seg =
     (case seg of ((t1, v1), (t2, v2)) \<Rightarrow>
        (let fr = segment_fraction get_frac t1 t2 v1 v2;
             abc = quadratic_coefficients t1 t2 v1 v2 fr
         in map (quadratic abc) (filter (\<lambda>t. t1 \<le> t \<and> t \<le> t2) noisy_amplitude_times)))"

text \<open>
  \<open>_apply_amplitude_errors\<close>, up to its last call: the result is the pair of lists it
  hands to \<open>TimeSeries.from_lists\<close>. The series is the list \<open>points\<close> of its
  (time, value) pairs.
  \<open>get_frac\<close> is the scipy interpolant of the device's ramp-correction curve and
  \<open>normal\<close> the samples \<open>np.random.normal\<close> draws, both taken as parameters.
\<close>

definition apply_amplitude_errors ::
  "(real \<Rightarrow> real) \<Rightarrow> real \<Rightarrow> (nat \<Rightarrow> real) \<Rightarrow> (real \<times> real) list \<Rightarrow> nat
     \<Rightarrow> error + (real list \<times> real list)" where
  "apply_amplitude_errors get_frac rabi_frequency_error_rel normal points steps =
     (if points = [] then Inl IndexError
      else (let noisy_amplitude_times = linspace 0 (fst (last points)) steps;
                corrected = concat (map (segment_values get_frac noisy_amplitude_times)
                                      (zip (butlast points) (tl points)));
                rabi_errors = map (\<lambda>i. 1 + rabi_frequency_error_rel * normal i)
                                [0..<length corrected];
                noisy_amplitude_values = map (\<lambda>(v, e). max 0 (v * e)) (zip corrected rabi_errors)
            in Inr (noisy_amplitude_times, noisy_amplitude_values)))"

text \<open>
  \<open>_apply_site_position_error\<close>: every site is moved by two normal samples scaled by
  the position error; \<open>normal\<close> is the sequence of the samples drawn.
\<close>

definition apply_site_position_error :: "real \<Rightarrow> (nat \<Rightarrow> real) \<Rightarrow> site list \<Rightarrow> site list" where
  "apply_site_position_error site_position_error normal sites =
     map (\<lambda>(i, (x, y)). (x + site_position_error * normal (2 * i),
                            y + site_position_error * normal (2 * i + 1)))
       (enumerate 0 sites)"

text \<open>
  \<open>_apply_detuning_errors\<close>, up to the lists it hands to \<open>TimeSeries.from_lists\<close>: the
  grid times, the noisy detuning values and the values of the local detuning. \<open>interp\<close>
  is the piecewise linear interpolant \<open>np.interp\<close> evaluates, taken as a parameter.
\<close>

definition apply_detuning_errors ::
  "(real \<Rightarrow> real) \<Rightarrow> real \<Rightarrow> real \<Rightarrow> (nat \<Rightarrow> real) \<Rightarrow> (real \<times> real) list \<Rightarrow> nat
     \<Rightarrow> error + (real list \<times> real list \<times> real list)" where
  "apply_detuning_errors interp detuning_error detuning_inhomogeneity normal points steps =
     (if points = [] then Inl IndexError
      else (let noisy_detuning_times = linspace 0 (fst (last points)) steps;
                noisy_detuning_values =
                  map (\<lambda>(i, t). interp t + detuning_error * normal i)
                    (enumerate 0 noisy_detuning_times);
                detuning_local = replicate (length noisy_detuning_times) (detuning_inhomogeneity * 1)
            in Inr (noisy_detuning_times, noisy_detuning_values, detuning_local)))"

text \<open>Example: a triangular pulse sampled at its three breakpoints.\<close>

definition triangle_pulse :: "(real \<times> real) list" where
  "triangle_pulse = [(0, 0), (1, 1), (2, 0)]"

section \<open>Example analog inputs\<close>

text \<open>The driving field of the test programs, with the amplitude values left open.\<close>

definition pulse :: "real list \<Rightarrow> driving_field" where
  "pulse vs =
     \<lparr>amplitude = \<lparr>times_of = [0, 1 / 10 ^ 7, 39 / 10 ^ 7, 4 / 10 ^ 6], values_of = vs\<rparr>,
      phase = \<lparr>times_of = [0, 4 / 10 ^ 6], values_of = [0, 0]\<rparr>,
      detuning = \<lparr>times_of = [0, 4 / 10 ^ 6], values_of = [- 125000000, 125000000]\<rparr>\<rparr>"

text \<open>Four sites in two rows, three micrometres apart.\<close>

definition two_rows :: "site list" where
  "two_rows = [(5 / 10 ^ 6, 3 / 10 ^ 6), (0, 0), (0, 3 / 10 ^ 6), (5 / 10 ^ 6, 0)]"

text \<open>Three sites in two rows, each at another x-coordinate.\<close>

definition staggered_sites :: "site list" where
  "staggered_sites = [(2 / 10 ^ 6, 3 / 10 ^ 6), (0, 0), (1 / 10 ^ 6, 0)]"

section \<open>Facts about graphs\<close>

lemma for_each_Inr:
  assumes "I s" and "\<And>x s. x \<in> set xs \<Longrightarrow> I s \<Longrightarrow> \<exists>s'. body x s = Inr s' \<and> I s'"
  shows "\<exists>s'. for_each body xs s = Inr s' \<and> I s'"
  using assms
proof (induction xs arbitrary: s)
  case Nil
  then show ?case by simp
next
  case (Cons x xs)
  from Cons.prems obtain s1 where s1: "body x s = Inr s1" "I s1"
    by (meson list.set_intros(1))
  have "\<exists>s'. for_each body xs s1 = Inr s' \<and> I s'"
    by (rule Cons.IH[OF s1(2)]) (use Cons.prems(2) in auto)
  with s1 show ?case by simp
qed

lemma map_of_add_node:
  "map_of (add_node n g) = (if n \<in> set (map fst g) then map_of g else (map_of g)(n \<mapsto> []))"
proof (cases "n \<in> set (map fst g)")
  case True
  then show ?thesis by (simp add: add_node_def)
next
  case False
  then have "map_of g n = None" by (simp add: map_of_eq_None_iff)
  then show ?thesis using False
    by (auto simp: add_node_def fun_eq_iff map_add_def split: option.splits)
qed

lemma get_edge_data_add_node [simp]:
  "get_edge_data (add_node n g) a b = get_edge_data g a b"
proof (cases "n \<in> set (map fst g)")
  case True
  then show ?thesis by (simp add: add_node_def)
next
  case False
  then have "map_of g n = None" by (simp add: map_of_eq_None_iff)
  then show ?thesis using False
    by (auto simp: get_edge_data_def map_of_add_node)
qed

lemma get_edge_data_add_edge:
  "get_edge_data (add_edge u v attr g) a b =
     (if a = u \<and> b = v
      then Some ((case get_edge_data g u v of None \<Rightarrow> Map.empty | Some d \<Rightarrow> d) ++ attr)
      else get_edge_data g a b)"
proof -
  let ?g' = "add_node v (add_node u g)"
  have g': "\<And>x y. get_edge_data ?g' x y = get_edge_data g x y" by simp
  show ?thesis
    using g'[of a b] g'[of u v] g'[of u b]
    by (auto simp: add_edge_def Let_def get_edge_data_def AList.update_conv'
        split: option.splits)
qed

lemma has_edge_add_edge:
  "has_edge (add_edge u v attr g) a b \<longleftrightarrow> (a = u \<and> b = v) \<or> has_edge g a b"
  by (auto simp add: has_edge_def get_edge_data_add_edge)

lemma nodes_add_node: "n \<in> set (nodes g) \<Longrightarrow> add_node n g = g"
  by (simp add: add_node_def nodes_def)

lemma nodes_add_edge:
  "u \<in> set (nodes g) \<Longrightarrow> v \<in> set (nodes g) \<Longrightarrow> nodes (add_edge u v attr g) = nodes g"
  by (simp add: add_edge_def nodes_add_node Let_def nodes_def AList.update_keys)

lemma set_successors: "set (successors g n) = {v. has_edge g n v}"
proof (cases "map_of g n")
  case None
  then show ?thesis by (simp add: successors_def has_edge_def get_edge_data_def)
next
  case (Some nbrs)
  have "v \<in> fst ` set nbrs \<longleftrightarrow> map_of nbrs v \<noteq> None" for v
    by (simp add: map_of_eq_None_iff)
  then show ?thesis using Some
    by (auto simp: successors_def has_edge_def get_edge_data_def)
qed

lemma has_edge_source: "has_edge g u v \<Longrightarrow> u \<in> set (nodes g)"
proof -
  assume "has_edge g u v"
  then have "map_of g u \<noteq> None"
    by (auto simp: has_edge_def get_edge_data_def split: option.splits)
  then show ?thesis by (simp add: nodes_def map_of_eq_None_iff)
qed

lemma has_edge_target:
  assumes "wf_digraph g" "has_edge g u v"
  shows "v \<in> set (nodes g)"
proof -
  from assms(2) obtain nbrs d where n: "map_of g u = Some nbrs" "map_of nbrs v = Some d"
    by (auto simp: has_edge_def get_edge_data_def split: option.splits)
  then have "(u, nbrs) \<in> set g" "v \<in> fst ` set nbrs"
    by (auto dest: map_of_SomeD simp: rev_image_eqI)
  with assms(1) show ?thesis
    by (auto simp: wf_digraph_def list_all_iff nodes_def)
qed

text \<open>
  Adding the edge \<open>(u, v)\<close> between two nodes leaves the neighbour list of every node
  but \<open>u\<close> as it is, and that of \<open>u\<close> too when \<open>(u, v)\<close> is an edge already.
\<close>

lemma successors_add_edge:
  assumes "u \<in> set (nodes g)" "v \<in> set (nodes g)" "n \<noteq> u \<or> has_edge g u v"
  shows "successors (add_edge u v attr g) n = successors g n"
proof -
  have g': "add_node v (add_node u g) = g"
    using assms(1,2) by (simp add: nodes_add_node)
  show ?thesis
  proof (cases "n = u")
    case False
    then show ?thesis
      by (simp add: successors_def add_edge_def g' Let_def AList.update_conv')
  next
    case True
    with assms(3) have e: "has_edge g u v" by simp
    then obtain nbrs d where n: "map_of g u = Some nbrs" "map_of nbrs v = Some d"
      by (auto simp: has_edge_def get_edge_data_def split: option.splits)
    then have "v \<in> set (map fst nbrs)"
      by (metis domI dom_map_of_conv_image_fst set_map)
    then show ?thesis using True n
      by (simp add: successors_def add_edge_def g' Let_def AList.update_conv' AList.update_keys)
  qed
qed

lemma set_edge_attr_keys:
  assumes "set_edge_attr u v key val g = Inr g'"
  shows "nodes g' = nodes g \<and> successors g' n = successors g n"
proof -
  from assms obtain nbrs d where n: "map_of g u = Some nbrs" "map_of nbrs v = Some d"
    and g': "g' = AList.update u (AList.update v (d(key \<mapsto> val)) nbrs) g"
    by (auto simp: set_edge_attr_def split: option.splits)
  have "u \<in> set (map fst g)" "v \<in> set (map fst nbrs)"
    using n by (metis domI dom_map_of_conv_image_fst set_map)+
  then show ?thesis using n
    by (auto simp: g' nodes_def successors_def AList.update_keys AList.update_conv')
qed

section \<open>Walking the edges\<close>

text \<open>
  The rule for \<open>for u, v in G.edges\<close>. The body must keep an invariant \<open>I\<close>, keep the
  node list and the neighbour list being walked (so that no \<open>RuntimeError\<close> is
  raised), keep the edges there are, and establish for the edge walked a fact \<open>D\<close> that
  later steps do not destroy. Then the loop returns, and \<open>D\<close> holds of every edge of
  the graph it started from.
\<close>

lemma for_each_edge_inner:
  assumes "I g" and "\<forall>v\<in>set vs. has_edge g n v"
    and step: "\<And>g n v. I g \<Longrightarrow> has_edge g n v \<Longrightarrow>
        \<exists>g'. body n v g = Inr g' \<and> I g' \<and> D n v g' \<and>
          nodes g' = nodes g \<and> successors g' n = successors g n \<and>
          (\<forall>a b. has_edge g a b \<longrightarrow> has_edge g' a b) \<and> (\<forall>a b. D a b g \<longrightarrow> D a b g')"
  shows "\<exists>g'. for_each (walk_step body n) vs g = Inr g' \<and> I g' \<and> (\<forall>v\<in>set vs. D n v g') \<and>
          nodes g' = nodes g \<and>
          (\<forall>a b. has_edge g a b \<longrightarrow> has_edge g' a b) \<and> (\<forall>a b. D a b g \<longrightarrow> D a b g')"
  using assms(1,2)
proof (induction vs arbitrary: g)
  case Nil
  then show ?case by simp
next
  case (Cons v vs)
  from Cons.prems have "has_edge g n v" by simp
  from step[OF Cons.prems(1) this] obtain g1 where g1: "body n v g = Inr g1" "I g1" "D n v g1"
    "nodes g1 = nodes g" "successors g1 n = successors g n"
    "\<forall>a b. has_edge g a b \<longrightarrow> has_edge g1 a b" "\<forall>a b. D a b g \<longrightarrow> D a b g1"
    by blast
  have w: "walk_step body n v g = Inr g1"
    using g1(1,4,5) by (simp add: walk_step_def)
  have "\<forall>v\<in>set vs. has_edge g1 n v" using Cons.prems(2) g1(6) by simp
  from Cons.IH[OF g1(2) this] obtain g2 where g2: "for_each (walk_step body n) vs g1 = Inr g2" "I g2"
    "\<forall>v\<in>set vs. D n v g2" "nodes g2 = nodes g1" "\<forall>a b. has_edge g1 a b \<longrightarrow> has_edge g2 a b"
    "\<forall>a b. D a b g1 \<longrightarrow> D a b g2"
    by blast
  show ?case using w g1 g2 by auto
qed

lemma for_each_edge_outer:
  assumes "I g"
    and step: "\<And>g n v. I g \<Longrightarrow> has_edge g n v \<Longrightarrow>
        \<exists>g'. body n v g = Inr g' \<and> I g' \<and> D n v g' \<and>
          nodes g' = nodes g \<and> successors g' n = successors g n \<and>
          (\<forall>a b. has_edge g a b \<longrightarrow> has_edge g' a b) \<and> (\<forall>a b. D a b g \<longrightarrow> D a b g')"
  shows "\<exists>g'. for_each (\<lambda>n g'. for_each (walk_step body n) (successors g' n) g') ns g = Inr g' \<and>
          I g' \<and> (\<forall>n\<in>set ns. \<forall>v. has_edge g n v \<longrightarrow> D n v g') \<and> nodes g' = nodes g \<and>
          (\<forall>a b. has_edge g a b \<longrightarrow> has_edge g' a b) \<and> (\<forall>a b. D a b g \<longrightarrow> D a b g')"
  using assms(1)
proof (induction ns arbitrary: g)
  case Nil
  then show ?case by simp
next
  case (Cons n ns)
  have "\<forall>v\<in>set (successors g n). has_edge g n v" by (simp add: set_successors)
  from for_each_edge_inner[of I g "successors g n" n body D, OF Cons.prems this step]
  obtain g1 where g1: "for_each (walk_step body n) (successors g n) g = Inr g1" "I g1"
    "\<forall>v\<in>set (successors g n). D n v g1" "nodes g1 = nodes g"
    "\<forall>a b. has_edge g a b \<longrightarrow> has_edge g1 a b" "\<forall>a b. D a b g \<longrightarrow> D a b g1"
    by blast
  from Cons.IH[OF g1(2)] obtain g2 where
    g2: "for_each (\<lambda>n g'. for_each (walk_step body n) (successors g' n) g') ns g1 = Inr g2" "I g2"
    "\<forall>n\<in>set ns. \<forall>v. has_edge g1 n v \<longrightarrow> D n v g2" "nodes g2 = nodes g1"
    "\<forall>a b. has_edge g1 a b \<longrightarrow> has_edge g2 a b" "\<forall>a b. D a b g1 \<longrightarrow> D a b g2"
    by blast
  have "\<forall>v. has_edge g n v \<longrightarrow> D n v g2"
    using g1(3) g2(6) by (simp add: set_successors)
  then show ?case using g1 g2 by auto
qed

lemma for_each_edge_rule:
  assumes "I g"
    and step: "\<And>g n v. I g \<Longrightarrow> has_edge g n v \<Longrightarrow>
        \<exists>g'. body n v g = Inr g' \<and> I g' \<and> D n v g' \<and>
          nodes g' = nodes g \<and> successors g' n = successors g n \<and>
          (\<forall>a b. has_edge g a b \<longrightarrow> has_edge g' a b) \<and> (\<forall>a b. D a b g \<longrightarrow> D a b g')"
  shows "\<exists>g'. for_each_edge body g = Inr g' \<and> I g' \<and> nodes g' = nodes g \<and>
          (\<forall>a b. has_edge g a b \<longrightarrow> D a b g' \<and> has_edge g' a b)"
proof -
  from for_each_edge_outer[of I g body D "nodes g", OF assms(1) step]
  obtain g' where g': "for_each (\<lambda>n g'. for_each (walk_step body n) (successors g' n) g') (nodes g) g = Inr g'"
    "I g'" "\<forall>n\<in>set (nodes g). \<forall>v. has_edge g n v \<longrightarrow> D n v g'" "nodes g' = nodes g"
    "\<forall>a b. has_edge g a b \<longrightarrow> has_edge g' a b"
    by blast
  then show ?thesis
    by (auto simp: for_each_edge_def dest: has_edge_source)
qed

section \<open>The back edges of the IQM overrides\<close>

text \<open>Every neighbour is a node: what the loops need of a well-formed graph.\<close>

lemma add_back_edges_result:
  assumes "wf_digraph g"
  shows "\<exists>g'. add_back_edges g = Inr g' \<and> nodes g' = nodes g \<and>
     (\<forall>a b. has_edge g' a b \<longleftrightarrow> has_edge g a b \<or> has_edge g b a)"
proof -
  let ?I = "\<lambda>g'. nodes g' = nodes g \<and> (\<forall>a b. has_edge g' a b \<longrightarrow> has_edge g a b \<or> has_edge g b a)"
  let ?D = "\<lambda>a b g'. has_edge g' b a"
  have "\<exists>g'. for_each_edge (\<lambda>u v g'. Inr (add_edge v u Map.empty g')) g = Inr g' \<and> ?I g' \<and>
          nodes g' = nodes g \<and> (\<forall>a b. has_edge g a b \<longrightarrow> ?D a b g' \<and> has_edge g' a b)"
  proof (rule for_each_edge_rule[where I = ?I and D = ?D])
    show "?I g" by simp
  next
    fix g1 n v
    assume I: "?I g1" and e: "has_edge g1 n v"
    from I e have "has_edge g n v \<or> has_edge g v n" by blast
    then have nd: "n \<in> set (nodes g1)" "v \<in> set (nodes g1)"
      using I has_edge_source[of g] has_edge_target[OF assms] by auto
    have "nodes (add_edge v n Map.empty g1) = nodes g1"
      using nodes_add_edge[OF nd(2) nd(1)] .
    moreover have "successors (add_edge v n Map.empty g1) n = successors g1 n"
      using successors_add_edge[OF nd(2) nd(1), of n] e by auto
    ultimately show "\<exists>g'. Inr (add_edge v n Map.empty g1) = Inr g' \<and> ?I g' \<and> has_edge g' v n \<and>
       nodes g' = nodes g1 \<and> successors g' n = successors g1 n \<and>
       (\<forall>a b. has_edge g1 a b \<longrightarrow> has_edge g' a b) \<and> (\<forall>a b. has_edge g1 b a \<longrightarrow> has_edge g' b a)"
      using I e by (auto simp: has_edge_add_edge)
  qed
  then show ?thesis unfolding add_back_edges_def by blast
qed

lemma copy_mutate:
  assumes "a < length h" "f (h ! a) = Inr g'"
  shows "(case copy a h of (g, h1) \<Rightarrow> case mutate g f h1 of Inl e \<Rightarrow> Inl e | Inr h2 \<Rightarrow> Inr (P g, h2))
     = Inr (P (length h), h @ [g'])"
  using assms by (simp add: copy_def mutate_def)

section \<open>The two loops of the Rigetti/IQM gate connectivity\<close>

lemma set_edge_attr_Some:
  assumes "get_edge_data g u v = Some d"
  shows "\<exists>g'. set_edge_attr u v key val g = Inr g' \<and>
           (\<forall>a b. get_edge_data g' a b =
              (if a = u \<and> b = v then Some (d(key \<mapsto> val)) else get_edge_data g a b))"
proof -
  from assms obtain nbrs where n: "map_of g u = Some nbrs" "map_of nbrs v = Some d"
    by (auto simp: get_edge_data_def split: option.splits)
  then show ?thesis
    by (auto simp: set_edge_attr_def get_edge_data_def AList.update_conv')
qed

lemma populate_edge_eq:
  "populate_edge properties u v g =
     set_edge_attr u v supported_gates_key (GateSet (calibrated_gates properties u v)) g"
  by (simp add: populate_edge_def calibrated_gates_def split: option.splits)

lemma populate_supported_gates_result:
  "\<exists>g1. populate_supported_gates properties g = Inr g1 \<and> nodes g1 = nodes g \<and>
     (\<forall>a b. get_edge_data g1 a b = populated properties g a b)"
proof -
  let ?fin = "populated properties g"
  let ?I = "\<lambda>g'. \<forall>a b. get_edge_data g' a b = get_edge_data g a b \<or> get_edge_data g' a b = ?fin a b"
  let ?D = "\<lambda>a b g'. get_edge_data g' a b = ?fin a b"
  have "\<exists>g'. for_each_edge (populate_edge properties) g = Inr g' \<and> ?I g' \<and> nodes g' = nodes g \<and>
          (\<forall>a b. has_edge g a b \<longrightarrow> ?D a b g' \<and> has_edge g' a b)"
  proof (rule for_each_edge_rule[where I = ?I and D = ?D])
    show "?I g" by simp
  next
    fix g1 n v
    assume I: "?I g1" and e: "has_edge g1 n v"
    from e obtain d where d: "get_edge_data g1 n v = Some d" by (auto simp: has_edge_def)
    from set_edge_attr_Some[OF d, of supported_gates_key "GateSet (calibrated_gates properties n v)"]
    obtain g2 where g2: "populate_edge properties n v g1 = Inr g2"
      "\<forall>a b. get_edge_data g2 a b =
         (if a = n \<and> b = v then Some (d(supported_gates_key \<mapsto> GateSet (calibrated_gates properties n v)))
          else get_edge_data g1 a b)"
      by (auto simp: populate_edge_eq)
    have keys: "nodes g2 = nodes g1 \<and> successors g2 n = successors g1 n"
      using g2(1) set_edge_attr_keys unfolding populate_edge_eq by blast
    have "get_edge_data g1 n v = get_edge_data g n v \<or> get_edge_data g1 n v = ?fin n v"
      using I by blast
    then have "?fin n v = Some (d(supported_gates_key \<mapsto> GateSet (calibrated_gates properties n v)))"
    proof
      assume "get_edge_data g1 n v = get_edge_data g n v"
      with d have "get_edge_data g n v = Some d" by simp
      then show ?thesis by (simp add: populated_def)
    next
      assume "get_edge_data g1 n v = ?fin n v"
      with d have "?fin n v = Some d" by simp
      then obtain d0 where "get_edge_data g n v = Some d0"
        "d = d0(supported_gates_key \<mapsto> GateSet (calibrated_gates properties n v))"
        by (auto simp: populated_def)
      then show ?thesis by (simp add: populated_def)
    qed
    then have fin: "get_edge_data g2 n v = ?fin n v"
      using g2(2) by simp
    have "?I g2" using I g2(2) fin by auto
    moreover have "\<forall>a b. has_edge g1 a b \<longrightarrow> has_edge g2 a b"
      using g2(2) by (auto simp: has_edge_def)
    moreover have "\<forall>a b. ?D a b g1 \<longrightarrow> ?D a b g2" using g2(2) fin by auto
    ultimately show "\<exists>g'. populate_edge properties n v g1 = Inr g' \<and> ?I g' \<and> ?D n v g' \<and>
       nodes g' = nodes g1 \<and> successors g' n = successors g1 n \<and>
       (\<forall>a b. has_edge g1 a b \<longrightarrow> has_edge g' a b) \<and> (\<forall>a b. ?D a b g1 \<longrightarrow> ?D a b g')"
      using g2(1) fin keys by blast
  qed
  then obtain g1 where g1: "populate_supported_gates properties g = Inr g1" "?I g1"
    "nodes g1 = nodes g" "\<forall>a b. has_edge g a b \<longrightarrow> ?D a b g1"
    unfolding populate_supported_gates_def by blast
  have "get_edge_data g1 a b = ?fin a b" for a b
  proof (cases "has_edge g a b")
    case True
    then show ?thesis using g1(4) by simp
  next
    case False
    then show ?thesis using g1(2)[rule_format, of a b] by (auto simp: has_edge_def populated_def)
  qed
  with g1(1,3) show ?thesis by blast
qed

lemma gated_data:
  assumes "gated g" "get_edge_data g a b = Some d"
  shows "d supported_gates_key = Some (GateSet (supported_gates g a b))"
proof -
  from assms obtain s where "d supported_gates_key = Some (GateSet s)"
    unfolding gated_def by blast
  then show ?thesis using assms(2) by (simp add: supported_gates_def)
qed

lemma synthesize_step:
  assumes gated: "gated g1"
    and I: "\<forall>a b. get_edge_data g a b = get_edge_data g1 a b \<or> get_edge_data g a b = synthesized g1 a b"
    and e: "has_edge g n v"
  shows "\<exists>g'. synthesize_back_edge n v g = Inr g' \<and> (g' = g \<or> (\<exists>attr. g' = add_edge v n attr g)) \<and>
           (\<forall>a b. get_edge_data g' a b = (if a = v \<and> b = n then synthesized g1 v n else get_edge_data g a b))"
proof -
  from e obtain dn where dn: "get_edge_data g n v = Some dn" by (auto simp: has_edge_def)
  have Inv: "get_edge_data g n v = get_edge_data g1 n v \<or> get_edge_data g n v = synthesized g1 n v"
    using I by blast
  have Ivn: "get_edge_data g v n = get_edge_data g1 v n \<or> get_edge_data g v n = synthesized g1 v n"
    using I by blast
  have g1nv: "\<And>d. get_edge_data g1 n v = Some d \<Longrightarrow> d supported_gates_key = Some (GateSet (supported_gates g1 n v))"
    using gated_data[OF gated] by blast
  have g1vn: "\<And>d. get_edge_data g1 v n = Some d \<Longrightarrow> d supported_gates_key = Some (GateSet (supported_gates g1 v n))"
    using gated_data[OF gated] by blast
  have none_nv: "get_edge_data g1 n v = None \<Longrightarrow> supported_gates g1 n v = {}"
    by (simp add: supported_gates_def)
  have none_vn: "get_edge_data g1 v n = None \<Longrightarrow> supported_gates g1 v n = {}"
    by (simp add: supported_gates_def)
  show ?thesis
  proof (cases "reverse_unpopulated g v n")
    case False
    have "get_edge_data g v n = synthesized g1 v n"
      using False Ivn g1vn none_vn
      by (auto simp: reverse_unpopulated_def synthesized_def back_edge_gates_def has_edge_def
          split: option.splits attr_value.splits if_splits)
    then show ?thesis using False by (auto simp: synthesize_back_edge_def)
  next
    case True
    have dn_gates: "dn supported_gates_key = Some (GateSet (back_edge_gates g1 v n))"
      using True Inv Ivn dn g1nv g1vn none_nv none_vn
      by (auto simp: reverse_unpopulated_def synthesized_def back_edge_gates_def has_edge_def
          split: option.splits attr_value.splits if_splits)
    then have rd: "read_supported_gates g n v = Inr (back_edge_gates g1 v n)"
      using dn by (simp add: read_supported_gates_def)
    have "Some ((case get_edge_data g v n of None \<Rightarrow> Map.empty | Some d \<Rightarrow> d)
             ++ [supported_gates_key \<mapsto> GateSet (back_edge_gates g1 v n)]) = synthesized g1 v n"
      using True Inv Ivn dn g1nv g1vn none_nv none_vn
      by (auto simp: reverse_unpopulated_def synthesized_def has_edge_def
          split: option.splits attr_value.splits if_splits)
    then show ?thesis using True rd
      by (auto simp add: synthesize_back_edge_def get_edge_data_add_edge)
  qed
qed

lemma synthesized_has_edge:
  "synthesized g a b \<noteq> None \<longleftrightarrow> has_edge g a b \<or> has_edge g b a"
  by (auto simp: synthesized_def has_edge_def split: option.splits)

lemma synthesize_back_edges_result:
  assumes gated: "gated g1" and closed: "\<forall>a b. has_edge g1 a b \<longrightarrow> b \<in> set (nodes g1)"
  shows "\<exists>g2. synthesize_back_edges g1 = Inr g2 \<and> nodes g2 = nodes g1 \<and>
     (\<forall>a b. get_edge_data g2 a b = synthesized g1 a b)"
proof -
  let ?I = "\<lambda>g. nodes g = nodes g1 \<and>
     (\<forall>a b. get_edge_data g a b = get_edge_data g1 a b \<or> get_edge_data g a b = synthesized g1 a b)"
  let ?D = "\<lambda>a b g. get_edge_data g b a = synthesized g1 b a"
  have "\<exists>g'. for_each_edge synthesize_back_edge g1 = Inr g' \<and> ?I g' \<and> nodes g' = nodes g1 \<and>
          (\<forall>a b. has_edge g1 a b \<longrightarrow> ?D a b g' \<and> has_edge g' a b)"
  proof (rule for_each_edge_rule[where I = ?I and D = ?D])
    show "?I g1" by simp
  next
    fix g n v
    assume I: "?I g" and e: "has_edge g n v"
    then have I2: "\<forall>a b. get_edge_data g a b = get_edge_data g1 a b \<or> get_edge_data g a b = synthesized g1 a b"
      by blast
    from synthesize_step[OF gated I2 e] obtain g' where
      g': "synthesize_back_edge n v g = Inr g'" "g' = g \<or> (\<exists>attr. g' = add_edge v n attr g)"
      "\<forall>a b. get_edge_data g' a b = (if a = v \<and> b = n then synthesized g1 v n else get_edge_data g a b)"
      by blast
    have "get_edge_data g n v = get_edge_data g1 n v \<or> get_edge_data g n v = synthesized g1 n v"
      using I by blast
    with e have e1: "has_edge g1 n v \<or> has_edge g1 v n"
      using synthesized_has_edge[of g1 n v] by (auto simp: has_edge_def)
    then have ne: "synthesized g1 v n \<noteq> None"
      using synthesized_has_edge[of g1 v n] by blast
    have nd: "n \<in> set (nodes g)" "v \<in> set (nodes g)"
      using e1 I closed has_edge_source[of g1] by auto
    have keys: "nodes g' = nodes g \<and> successors g' n = successors g n"
      using g'(2) nodes_add_edge[OF nd(2) nd(1)] successors_add_edge[OF nd(2) nd(1), of n] e
      by auto
    have "?I g'" using I g'(3) keys by auto
    moreover have "?D n v g'" using g'(3) by simp
    moreover have "\<forall>a b. has_edge g a b \<longrightarrow> has_edge g' a b"
      using g'(3) ne by (auto simp: has_edge_def)
    moreover have "\<forall>a b. ?D a b g \<longrightarrow> ?D a b g'" using g'(3) by auto
    ultimately show "\<exists>g'. synthesize_back_edge n v g = Inr g' \<and> ?I g' \<and> ?D n v g' \<and>
       nodes g' = nodes g \<and> successors g' n = successors g n \<and>
       (\<forall>a b. has_edge g a b \<longrightarrow> has_edge g' a b) \<and> (\<forall>a b. ?D a b g \<longrightarrow> ?D a b g')"
      using g'(1) keys by blast
  qed
  then obtain g2 where g2: "synthesize_back_edges g1 = Inr g2" "?I g2"
    "\<forall>a b. has_edge g1 a b \<longrightarrow> ?D a b g2"
    unfolding synthesize_back_edges_def by blast
  have "get_edge_data g2 a b = synthesized g1 a b" for a b
  proof (cases "has_edge g1 b a")
    case True
    then show ?thesis using g2(3) by blast
  next
    case False
    have "get_edge_data g2 a b = get_edge_data g1 a b \<or> get_edge_data g2 a b = synthesized g1 a b"
      using g2(2) by blast
    moreover have "get_edge_data g1 a b = synthesized g1 a b"
    proof (cases "get_edge_data g1 a b")
      case None
      then show ?thesis using False by (simp add: synthesized_def)
    next
      case (Some d)
      have "supported_gates g1 b a = {}" using False by (simp add: supported_gates_def has_edge_def)
      then have "back_edge_gates g1 a b = supported_gates g1 a b"
        by (simp add: back_edge_gates_def)
      moreover have "d supported_gates_key = Some (GateSet (supported_gates g1 a b))"
        using gated_data[OF gated Some] .
      ultimately have "d(supported_gates_key \<mapsto> GateSet (back_edge_gates g1 a b)) = d"
        by (simp add: map_upd_triv)
      then show ?thesis using Some by (simp add: synthesized_def)
    qed
    ultimately show ?thesis by auto
  qed
  with g2(1,2) show ?thesis by blast
qed

lemma rigetti_iqm_gate_connectivity_result:
  assumes "wf_digraph g"
  shows "\<exists>g2. rigetti_iqm_gate_connectivity properties g = Inr g2 \<and> nodes g2 = nodes g \<and>
     (\<forall>a b. has_edge g2 a b \<longleftrightarrow> has_edge g a b \<or> has_edge g b a) \<and>
     (\<forall>a b. supported_gates g2 a b =
        (if forward_gates properties g a b = {} then forward_gates properties g b a
         else forward_gates properties g a b)) \<and>
     (\<forall>a b. has_edge g2 a b \<longrightarrow>
        (\<exists>d. get_edge_data g2 a b = Some d \<and>
             d supported_gates_key = Some (GateSet (supported_gates g2 a b))))"
proof -
  obtain g1 where g1: "populate_supported_gates properties g = Inr g1" "nodes g1 = nodes g"
    "\<forall>a b. get_edge_data g1 a b = populated properties g a b"
    using populate_supported_gates_result by blast
  have gated: "gated g1" using g1(3) by (auto simp: gated_def populated_def)
  have he: "has_edge g1 a b \<longleftrightarrow> has_edge g a b" for a b
    using g1(3) by (simp add: has_edge_def populated_def)
  have closed: "\<forall>a b. has_edge g1 a b \<longrightarrow> b \<in> set (nodes g1)"
    using he g1(2) has_edge_target[OF assms] by auto
  have sg: "supported_gates g1 a b = forward_gates properties g a b" for a b
    using g1(3) by (auto simp: supported_gates_def forward_gates_def populated_def has_edge_def
        split: option.splits)
  obtain g2 where g2: "synthesize_back_edges g1 = Inr g2" "nodes g2 = nodes g1"
    "\<forall>a b. get_edge_data g2 a b = synthesized g1 a b"
    using synthesize_back_edges_result[OF gated closed] by blast
  have "has_edge g2 a b \<longleftrightarrow> has_edge g a b \<or> has_edge g b a" for a b
    using g2(3) synthesized_has_edge[of g1 a b] he by (simp add: has_edge_def)
  moreover have "supported_gates g2 a b = back_edge_gates g1 a b" for a b
  proof (cases "synthesized g1 a b")
    case None
    then have "\<not> has_edge g1 a b" "\<not> has_edge g1 b a"
      using synthesized_has_edge[of g1 a b] by auto
    then have "supported_gates g1 a b = {}" "supported_gates g1 b a = {}"
      by (simp_all add: supported_gates_def has_edge_def)
    then show ?thesis using None g2(3) by (simp add: supported_gates_def back_edge_gates_def)
  next
    case (Some d)
    then have "d supported_gates_key = Some (GateSet (back_edge_gates g1 a b))"
      by (auto simp: synthesized_def split: option.splits if_splits)
    then show ?thesis using Some g2(3) by (simp add: supported_gates_def)
  qed
  moreover have "\<exists>d. get_edge_data g2 a b = Some d \<and>
             d supported_gates_key = Some (GateSet (supported_gates g2 a b))"
    if "has_edge g2 a b" for a b
  proof -
    from that obtain d where d: "synthesized g1 a b = Some d"
      using g2(3) by (auto simp: has_edge_def)
    then have "d supported_gates_key = Some (GateSet (back_edge_gates g1 a b))"
      by (auto simp: synthesized_def split: option.splits if_splits)
    then show ?thesis using d g2(3) by (simp add: supported_gates_def)
  qed
  ultimately show ?thesis
    using g1(1,2) g2(1,2) sg by (simp add: rigetti_iqm_gate_connectivity_def back_edge_gates_def)
qed

section \<open>Gate names and the IonQ override\<close>

text \<open>Translating a translated gate name changes nothing.\<close>

lemma gate_translation_idempotent:
  "get_qpu_gate_translation properties (get_qpu_gate_translation properties gate_name)
     = get_qpu_gate_translation properties gate_name"
  by (cases "family properties") (auto simp: get_qpu_gate_translation_def)

text \<open>
  The IonQ override raises nothing, keeps nodes and edges, and gives every edge the
  translated native gate set.
\<close>

lemma ionq_gate_connectivity_result:
  "\<exists>g'. ionq_gate_connectivity properties g = Inr g' \<and> nodes g' = nodes g \<and>
     (\<forall>a b. has_edge g' a b \<longleftrightarrow> has_edge g a b) \<and>
     (\<forall>a b. has_edge g a b \<longrightarrow>
        supported_gates g' a b
          = set (get_qpu_gate_translations properties (nativeGateSet properties)))"
proof -
  let ?s = "GateSet (set (get_qpu_gate_translations properties (nativeGateSet properties)))"
  define fin where
    "fin = (\<lambda>a b. map_option (\<lambda>d. d(supported_gates_key \<mapsto> ?s)) (get_edge_data g a b))"
  let ?I = "\<lambda>g'. \<forall>a b. get_edge_data g' a b = get_edge_data g a b \<or> get_edge_data g' a b = fin a b"
  let ?D = "\<lambda>a b g'. get_edge_data g' a b = fin a b"
  have "\<exists>g'. for_each_edge (\<lambda>u v. set_edge_attr u v supported_gates_key ?s) g = Inr g' \<and> ?I g' \<and>
          nodes g' = nodes g \<and> (\<forall>a b. has_edge g a b \<longrightarrow> ?D a b g' \<and> has_edge g' a b)"
  proof (rule for_each_edge_rule[where I = ?I and D = ?D])
    show "?I g" by simp
  next
    fix g1 n v
    assume I: "?I g1" and e: "has_edge g1 n v"
    from e obtain d where d: "get_edge_data g1 n v = Some d" by (auto simp: has_edge_def)
    from set_edge_attr_Some[OF d, of supported_gates_key ?s]
    obtain g2 where g2: "set_edge_attr n v supported_gates_key ?s g1 = Inr g2"
      "\<forall>a b. get_edge_data g2 a b =
         (if a = n \<and> b = v then Some (d(supported_gates_key \<mapsto> ?s)) else get_edge_data g1 a b)"
      by blast
    have keys: "nodes g2 = nodes g1 \<and> successors g2 n = successors g1 n"
      using g2(1) set_edge_attr_keys by blast
    have "get_edge_data g1 n v = get_edge_data g n v \<or> get_edge_data g1 n v = fin n v"
      using I by blast
    then have "fin n v = Some (d(supported_gates_key \<mapsto> ?s))"
    proof
      assume "get_edge_data g1 n v = get_edge_data g n v"
      with d have "get_edge_data g n v = Some d" by simp
      then show ?thesis by (simp add: fin_def)
    next
      assume "get_edge_data g1 n v = fin n v"
      with d have "fin n v = Some d" by simp
      then obtain d0 where "get_edge_data g n v = Some d0" "d = d0(supported_gates_key \<mapsto> ?s)"
        by (auto simp: fin_def)
      then show ?thesis by (simp add: fin_def)
    qed
    then have fin: "get_edge_data g2 n v = fin n v"
      using g2(2) by simp
    have "?I g2" using I g2(2) fin by auto
    moreover have "\<forall>a b. has_edge g1 a b \<longrightarrow> has_edge g2 a b"
      using g2(2) by (auto simp: has_edge_def)
    moreover have "\<forall>a b. ?D a b g1 \<longrightarrow> ?D a b g2" using g2(2) fin by auto
    ultimately show "\<exists>g'. set_edge_attr n v supported_gates_key ?s g1 = Inr g' \<and> ?I g' \<and> ?D n v g' \<and>
       nodes g' = nodes g1 \<and> successors g' n = successors g1 n \<and>
       (\<forall>a b. has_edge g1 a b \<longrightarrow> has_edge g' a b) \<and> (\<forall>a b. ?D a b g1 \<longrightarrow> ?D a b g')"
      using g2(1) fin keys by blast
  qed
  then obtain g' where g': "ionq_gate_connectivity properties g = Inr g'" "?I g'"
    "nodes g' = nodes g" "\<forall>a b. has_edge g a b \<longrightarrow> ?D a b g'"
    unfolding ionq_gate_connectivity_def Let_def by blast
  have data: "get_edge_data g' a b = fin a b" for a b
  proof (cases "has_edge g a b")
    case True
    then show ?thesis using g'(4) by simp
  next
    case False
    then show ?thesis using g'(2)[rule_format, of a b] by (auto simp: has_edge_def fin_def)
  qed
  have "has_edge g' a b \<longleftrightarrow> has_edge g a b" for a b
    using data[of a b] by (simp add: has_edge_def fin_def)
  moreover have "supported_gates g' a b
          = set (get_qpu_gate_translations properties (nativeGateSet properties))"
    if "has_edge g a b" for a b
    using that data[of a b] by (auto simp: has_edge_def supported_gates_def fin_def)
  ultimately show ?thesis using g'(1,3) by blast
qed

section \<open>Evaluating the graph functions on concrete inputs\<close>

lemmas graph_eval = for_each_edge_def walk_step_def nodes_def successors_def add_edge_def add_node_def
  set_edge_attr_def get_edge_data_def has_edge_def copy_def mutate_def edge_key_def digit_char_def
  populate_edge_def populate_supported_gates_def reverse_unpopulated_def read_supported_gates_def
  synthesize_back_edge_def synthesize_back_edges_def rigetti_iqm_gate_connectivity_def
  supported_gates_def get_qpu_gate_translations_def
  get_qpu_gate_translation_def calibrated_gates_def add_back_edges_def

section \<open>The builders' results\<close>

lemma gate_connectivity_validator_rigetti_iqm:
  assumes "connectivity_graph < length h"
    and "family properties = Iqm \<or> family properties = Rigetti"
    and "rigetti_iqm_gate_connectivity properties (h ! connectivity_graph) = Inr g2"
  shows "gate_connectivity_validator properties connectivity_graph h
           = Inr (GateConnectivityValidator (length h), h @ [g2])"
  using assms(2)
    copy_mutate[where f = "rigetti_iqm_gate_connectivity properties" and P = GateConnectivityValidator
      and a = connectivity_graph and h = h, OF assms(1) assms(3)]
  by (simp add: gate_connectivity_validator_def Let_def)

lemma copy_mutate_frame:
  assumes "a < length h"
  shows "(case copy a h of (g, h1) \<Rightarrow> case mutate g f h1 of Inl e \<Rightarrow> Inl e | Inr h2 \<Rightarrow> Inr (P g h2, h2))
           = Inr (p, h') \<Longrightarrow> take (length h) h' = h \<and> length h' = Suc (length h)"
  by (auto simp: copy_def mutate_def split: sum.splits)

subsection \<open>Connectivity graph of the validator\<close>

text \<open>
  Claim C1. For every input graph (a well-formed \<open>DiGraph\<close>), building the connectivity
  validator for an IQM device raises nothing, and the validator holds a graph that
  contains \<open>(u, v)\<close> and \<open>(v, u)\<close> for every edge \<open>(u, v)\<close> of the input, and that is
  symmetric; the validator built by the default dispatch case (any device class but IQM)
  holds the input graph itself.
\<close>

theorem connectivity_validator_graph:
  assumes "connectivity_graph < length h"
  shows "(family properties = Iqm \<and> wf_digraph (h ! connectivity_graph) \<longrightarrow>
            (\<exists>r. connectivity_validator properties connectivity_graph h = Inr r \<and>
                 (\<forall>u v. has_edge (h ! connectivity_graph) u v \<longrightarrow>
                    has_edge (pass_graph r) u v \<and> has_edge (pass_graph r) v u) \<and>
                 (\<forall>u v. has_edge (pass_graph r) u v \<longrightarrow> has_edge (pass_graph r) v u))) \<and>
         (family properties \<noteq> Iqm \<longrightarrow>
            (\<exists>r. connectivity_validator properties connectivity_graph h = Inr r \<and>
                 pass_graph r = h ! connectivity_graph))"
proof (intro conjI impI)
  assume "family properties = Iqm \<and> wf_digraph (h ! connectivity_graph)"
  then have iqm: "family properties = Iqm" and wf: "wf_digraph (h ! connectivity_graph)"
    by simp_all
  obtain g' where g': "add_back_edges (h ! connectivity_graph) = Inr g'"
    "\<forall>a b. has_edge g' a b \<longleftrightarrow> has_edge (h ! connectivity_graph) a b \<or> has_edge (h ! connectivity_graph) b a"
    using add_back_edges_result[OF wf] by blast
  have "connectivity_validator properties connectivity_graph h
          = Inr (ConnectivityValidator (length h), h @ [g'])"
    using iqm copy_mutate[where f = add_back_edges and P = ConnectivityValidator and a = connectivity_graph and h = h, OF assms g'(1)]
    by (simp add: connectivity_validator_def Let_def)
  moreover have "pass_graph (ConnectivityValidator (length h), h @ [g']) = g'" by simp
  ultimately show "\<exists>r. connectivity_validator properties connectivity_graph h = Inr r \<and>
                 (\<forall>u v. has_edge (h ! connectivity_graph) u v \<longrightarrow>
                    has_edge (pass_graph r) u v \<and> has_edge (pass_graph r) v u) \<and>
                 (\<forall>u v. has_edge (pass_graph r) u v \<longrightarrow> has_edge (pass_graph r) v u)"
    using g'(2) by auto
next
  assume "family properties \<noteq> Iqm"
  then show "\<exists>r. connectivity_validator properties connectivity_graph h = Inr r \<and>
                 pass_graph r = h ! connectivity_graph"
    by (cases "family properties") (simp_all add: connectivity_validator_def)
qed

theorem connectivity_validator_graph_witness:
  "(0::nat) < length [one_way_graph] \<and> family iqm_device = Iqm \<and>
   wf_digraph ([one_way_graph] ! 0) \<and>
   (\<exists>r. connectivity_validator iqm_device 0 [one_way_graph] = Inr r \<and>
        has_edge (pass_graph r) 0 1 \<and> has_edge (pass_graph r) 1 0 \<and>
        has_edge (pass_graph r) 0 2 \<and> has_edge (pass_graph r) 2 0) \<and>
   family rigetti_device \<noteq> Iqm \<and>
   (\<exists>r. connectivity_validator rigetti_device 0 [one_way_graph] = Inr r \<and>
        pass_graph r = one_way_graph)"
proof -
  have len: "(0::nat) < length [one_way_graph]" by simp
  have e: "has_edge ([one_way_graph] ! 0) 0 1" "has_edge ([one_way_graph] ! 0) 0 2"
    by (simp_all add: one_way_graph_def has_edge_def get_edge_data_def)
  have f: "family iqm_device = Iqm" "family rigetti_device \<noteq> Iqm"
    by (simp_all add: iqm_device_def rigetti_device_def)
  have wf: "wf_digraph ([one_way_graph] ! 0)"
    by (simp add: one_way_graph_def wf_digraph_def)
  from connectivity_validator_graph[OF len, of iqm_device] f(1) e wf
  have "\<exists>r. connectivity_validator iqm_device 0 [one_way_graph] = Inr r \<and>
        has_edge (pass_graph r) 0 1 \<and> has_edge (pass_graph r) 1 0 \<and>
        has_edge (pass_graph r) 0 2 \<and> has_edge (pass_graph r) 2 0"
    by blast
  moreover from connectivity_validator_graph[OF len, of rigetti_device] f(2)
  have "\<exists>r. connectivity_validator rigetti_device 0 [one_way_graph] = Inr r \<and>
        pass_graph r = one_way_graph"
    by simp
  ultimately show ?thesis using f wf by simp
qed

subsection \<open>Back-edge synthesis\<close>




subsection \<open>Edges without calibration data\<close>

text \<open>
  Claim C3, as amended. For a Rigetti or IQM device and a well-formed input graph, an
  edge \<open>(u, v)\<close> of the input whose key has no entry in \<open>twoQubitProperties\<close> is kept
  and no exception is raised for it: the derivation returns. The forward loop (lines
  148-159) gives the edge the empty set as its \<open>supported_gates\<close>. In the returned
  graph the edge carries the attribute \<open>supported_gates\<close>, and its value is still the
  empty set unless the reverse edge \<open>(v, u)\<close> is an edge of the input: then the back-edge
  loop has replaced it by the calibrated gates of \<open>(v, u)\<close>.
\<close>

theorem uncalibrated_edge_kept:
  assumes "connectivity_graph < length h"
    and "family properties = Iqm \<or> family properties = Rigetti"
    and "wf_digraph (h ! connectivity_graph)"
    and "has_edge (h ! connectivity_graph) u v"
    and "twoQubitProperties properties (edge_key u v) = None"
  shows "(\<exists>g1 d. populate_supported_gates properties (h ! connectivity_graph) = Inr g1 \<and>
            get_edge_data g1 u v = Some d \<and> d supported_gates_key = Some (GateSet {})) \<and>
         (\<exists>r d. gate_connectivity_validator properties connectivity_graph h = Inr r \<and>
            get_edge_data (pass_graph r) u v = Some d \<and>
            d supported_gates_key =
              Some (GateSet (if has_edge (h ! connectivity_graph) v u
                             then calibrated_gates properties v u else {})))"
proof
  let ?g = "h ! connectivity_graph"
  have cal: "calibrated_gates properties u v = {}"
    using assms(5) by (simp add: calibrated_gates_def)
  obtain g1 where g1: "populate_supported_gates properties ?g = Inr g1"
    "\<forall>a b. get_edge_data g1 a b = populated properties ?g a b"
    using populate_supported_gates_result by blast
  from assms(4) obtain d0 where "get_edge_data ?g u v = Some d0"
    by (auto simp: has_edge_def)
  then have "get_edge_data g1 u v = Some (d0(supported_gates_key \<mapsto> GateSet {}))"
    using g1(2) cal by (simp add: populated_def)
  with g1(1) show "\<exists>g1 d. populate_supported_gates properties ?g = Inr g1 \<and>
            get_edge_data g1 u v = Some d \<and> d supported_gates_key = Some (GateSet {})"
    by simp
next
  let ?g = "h ! connectivity_graph"
  have cal: "calibrated_gates properties u v = {}"
    using assms(5) by (simp add: calibrated_gates_def)
  obtain g2 where g2: "rigetti_iqm_gate_connectivity properties ?g = Inr g2"
    "\<forall>a b. has_edge g2 a b \<longleftrightarrow> has_edge ?g a b \<or> has_edge ?g b a"
    "\<forall>a b. supported_gates g2 a b =
        (if forward_gates properties ?g a b = {} then forward_gates properties ?g b a
         else forward_gates properties ?g a b)"
    "\<forall>a b. has_edge g2 a b \<longrightarrow>
        (\<exists>d. get_edge_data g2 a b = Some d \<and>
             d supported_gates_key = Some (GateSet (supported_gates g2 a b)))"
    using rigetti_iqm_gate_connectivity_result[OF assms(3)] by blast
  have r: "gate_connectivity_validator properties connectivity_graph h
           = Inr (GateConnectivityValidator (length h), h @ [g2])"
    using gate_connectivity_validator_rigetti_iqm[OF assms(1,2) g2(1)] .
  have e: "has_edge g2 u v" using g2(2) assms(4) by simp
  have s: "supported_gates g2 u v = (if has_edge ?g v u then calibrated_gates properties v u else {})"
    using g2(3) cal by (simp add: forward_gates_def)
  from g2(4) e obtain d where "get_edge_data g2 u v = Some d"
    "d supported_gates_key = Some (GateSet (supported_gates g2 u v))" by blast
  then have "get_edge_data (pass_graph (GateConnectivityValidator (length h), h @ [g2])) u v = Some d \<and>
     d supported_gates_key =
              Some (GateSet (if has_edge ?g v u then calibrated_gates properties v u else {}))"
    using s by simp
  then show "\<exists>r d. gate_connectivity_validator properties connectivity_graph h = Inr r \<and>
            get_edge_data (pass_graph r) u v = Some d \<and>
            d supported_gates_key =
              Some (GateSet (if has_edge ?g v u then calibrated_gates properties v u else {}))"
    using r by blast
qed

theorem uncalibrated_edge_kept_witness:
  "(0::nat) < length [both_ways_graph] \<and>
   (family rigetti_device = Iqm \<or> family rigetti_device = Rigetti) \<and>
   wf_digraph ([both_ways_graph] ! 0) \<and>
   has_edge ([both_ways_graph] ! 0) 0 2 \<and>
   twoQubitProperties rigetti_device (edge_key 0 2) = None \<and>
   (\<exists>r d. gate_connectivity_validator rigetti_device 0 [both_ways_graph] = Inr r \<and>
        get_edge_data (pass_graph r) 0 2 = Some d \<and> d supported_gates_key = Some (GateSet {})) \<and>
   has_edge ([both_ways_graph] ! 0) 1 0 \<and>
   twoQubitProperties rigetti_device (edge_key 1 0) = None \<and>
   (\<exists>r d. gate_connectivity_validator rigetti_device 0 [both_ways_graph] = Inr r \<and>
        get_edge_data (pass_graph r) 1 0 = Some d \<and>
        d supported_gates_key = Some (GateSet {''CZ'', ''CPhaseShift''}))"
proof -
  have len: "(0::nat) < length [both_ways_graph]" by simp
  have f: "family rigetti_device = Iqm \<or> family rigetti_device = Rigetti"
    by (simp add: rigetti_device_def)
  have wf: "wf_digraph ([both_ways_graph] ! 0)"
    by (simp add: both_ways_graph_def wf_digraph_def)
  have e: "has_edge ([both_ways_graph] ! 0) 0 2"
    by (simp add: both_ways_graph_def has_edge_def get_edge_data_def)
  have k: "twoQubitProperties rigetti_device (edge_key 0 2) = None"
    by (simp add: rigetti_device_def edge_key_def digit_char_def)
  have c: "(if has_edge ([both_ways_graph] ! 0) 2 0 then calibrated_gates rigetti_device 2 0 else {}) = {}"
    by (simp add: calibrated_gates_def rigetti_device_def edge_key_def digit_char_def)
  have e': "has_edge ([both_ways_graph] ! 0) 1 0"
    by (simp add: both_ways_graph_def has_edge_def get_edge_data_def)
  have k': "twoQubitProperties rigetti_device (edge_key 1 0) = None"
    by (simp add: rigetti_device_def edge_key_def digit_char_def)
  have c': "(if has_edge ([both_ways_graph] ! 0) 0 1 then calibrated_gates rigetti_device 0 1 else {})
              = {''CZ'', ''CPhaseShift''}"
    by (simp add: both_ways_graph_def has_edge_def get_edge_data_def calibrated_gates_def
        rigetti_device_def edge_key_def digit_char_def get_qpu_gate_translations_def
        get_qpu_gate_translation_def)
  have 1: "\<exists>r d. gate_connectivity_validator rigetti_device 0 [both_ways_graph] = Inr r \<and>
        get_edge_data (pass_graph r) 0 2 = Some d \<and> d supported_gates_key = Some (GateSet {})"
    using uncalibrated_edge_kept[OF len f wf e k] unfolding c by blast
  have 2: "\<exists>r d. gate_connectivity_validator rigetti_device 0 [both_ways_graph] = Inr r \<and>
        get_edge_data (pass_graph r) 1 0 = Some d \<and>
        d supported_gates_key = Some (GateSet {''CZ'', ''CPhaseShift''})"
    using uncalibrated_edge_kept[OF len f wf e' k'] unfolding c' by blast
  show ?thesis using len f wf e k e' k' 1 2 by blast
qed

text \<open>
  The claim as stated fails for an edge whose reverse has calibration data: in the graph
  of the Rigetti test the edge \<open>(1, 0)\<close> has no entry under \<open>1-0\<close> and comes out with
  the gates of \<open>(0, 1)\<close>.
\<close>

theorem uncalibrated_edge_counterexample:
  "has_edge both_ways_graph 1 0 \<and>
   twoQubitProperties rigetti_device (edge_key 1 0) = None \<and>
   \<not> isl (gate_connectivity_validator rigetti_device 0 [both_ways_graph]) \<and>
   has_edge (pass_graph (projr (gate_connectivity_validator rigetti_device 0 [both_ways_graph]))) 1 0 \<and>
   the (get_edge_data (pass_graph (projr (gate_connectivity_validator rigetti_device 0 [both_ways_graph]))) 1 0)
     supported_gates_key = Some (GateSet {''CZ'', ''CPhaseShift''}) \<and>
   supported_gates (pass_graph (projr (gate_connectivity_validator rigetti_device 0 [both_ways_graph]))) 1 0
     \<noteq> {}"
  by (simp add: both_ways_graph_def rigetti_device_def gate_connectivity_validator_def graph_eval)

subsection \<open>The caller's graph is not mutated\<close>

text \<open>
  Claim C10. Whatever the device class, a call of \<open>connectivity_validator\<close>,
  \<open>gate_connectivity_validator\<close>, \<open>lexi_mapping_routing_pass\<close> or
  \<open>create_nativization_pass\<close> that returns leaves every graph object that existed
  before the call as it was, the input graph among them: back edges and gate sets are
  written to the copy, a new object of the store.
\<close>

theorem builders_keep_input_graph:
  assumes "connectivity_graph < length h"
  shows "(\<forall>p h'. connectivity_validator properties connectivity_graph h = Inr (p, h') \<longrightarrow>
            take (length h) h' = h \<and> h' ! connectivity_graph = h ! connectivity_graph) \<and>
         (\<forall>p h'. gate_connectivity_validator properties connectivity_graph h = Inr (p, h') \<longrightarrow>
            take (length h) h' = h \<and> h' ! connectivity_graph = h ! connectivity_graph) \<and>
         (\<forall>p h'. lexi_mapping_routing_pass properties connectivity_graph h = Inr (p, h') \<longrightarrow>
            take (length h) h' = h \<and> h' ! connectivity_graph = h ! connectivity_graph) \<and>
         (\<forall>p h'. create_nativization_pass properties connectivity_graph h = Inr (p, h') \<longrightarrow>
            take (length h) h' = h \<and> h' ! connectivity_graph = h ! connectivity_graph)"
proof -
  have nth: "h' ! connectivity_graph = h ! connectivity_graph" if "take (length h) h' = h" for h'
  proof -
    have "take (length h) h' ! connectivity_graph = h' ! connectivity_graph"
      using assms by simp
    with that show ?thesis by simp
  qed
  have 1: "take (length h) h' = h"
    if "connectivity_validator properties connectivity_graph h = Inr (p, h')" for p h'
    using that copy_mutate_frame[where f = add_back_edges and P = "\<lambda>g h2. ConnectivityValidator g" and p = p and h' = h', OF assms]
    by (cases "family properties") (auto simp: connectivity_validator_def Let_def)
  have 2: "take (length h) h' = h"
    if "gate_connectivity_validator properties connectivity_graph h = Inr (p, h')" for p h'
    using that
      copy_mutate_frame[where f = "rigetti_iqm_gate_connectivity properties" and P = "\<lambda>g h2. GateConnectivityValidator g" and p = p and h' = h', OF assms]
      copy_mutate_frame[where f = "ionq_gate_connectivity properties" and P = "\<lambda>g h2. GateConnectivityValidator g" and p = p and h' = h', OF assms]
    by (auto simp: gate_connectivity_validator_def Let_def split: if_splits)
  have 3: "take (length h) h' = h"
    if "lexi_mapping_routing_pass properties connectivity_graph h = Inr (p, h')" for p h'
    using that copy_mutate_frame[where f = add_back_edges and P = "\<lambda>g h2. LexiRoutingPass g" and p = p and h' = h', OF assms]
    by (auto simp: lexi_mapping_routing_pass_def Let_def split: if_splits)
  have 4: "take (length h) h' = h"
    if "create_nativization_pass properties connectivity_graph h = Inr (p, h')" for p h'
    using that copy_mutate_frame[where f = add_back_edges and P = "\<lambda>g h2. TketCompilerPass (edges (h2 ! g))" and p = p and h' = h', OF assms]
    by (auto simp: create_nativization_pass_def Let_def split: if_splits)
  show ?thesis using 1 2 3 4 nth by blast
qed

theorem builders_keep_input_graph_witness:
  "(0::nat) < length [one_way_graph] \<and>
   (\<exists>p h'. connectivity_validator iqm_device 0 [one_way_graph] = Inr (p, h') \<and>
      h' ! 0 = one_way_graph \<and> has_edge (pass_graph (p, h')) 1 0) \<and>
   (\<exists>p h'. gate_connectivity_validator iqm_device 0 [one_way_graph] = Inr (p, h') \<and>
      h' ! 0 = one_way_graph \<and> has_edge (pass_graph (p, h')) 1 0) \<and>
   (\<exists>p h'. lexi_mapping_routing_pass iqm_device 0 [one_way_graph] = Inr (p, h') \<and>
      h' ! 0 = one_way_graph \<and> has_edge (pass_graph (p, h')) 1 0) \<and>
   (\<exists>p h'. create_nativization_pass iqm_device 0 [one_way_graph] = Inr (p, h') \<and>
      h' ! 0 = one_way_graph \<and> p = TketCompilerPass [(0, 1), (0, 2), (1, 0), (2, 0)])"
proof -
  have len: "(0::nat) < length [one_way_graph]" by simp
  note frame = builders_keep_input_graph[OF len, of iqm_device]
  have "\<exists>p h'. connectivity_validator iqm_device 0 [one_way_graph] = Inr (p, h') \<and>
      has_edge (pass_graph (p, h')) 1 0"
    by (simp add: one_way_graph_def iqm_device_def connectivity_validator_def graph_eval)
  then have 1: "\<exists>p h'. connectivity_validator iqm_device 0 [one_way_graph] = Inr (p, h') \<and>
      h' ! 0 = one_way_graph \<and> has_edge (pass_graph (p, h')) 1 0"
    using frame by fastforce
  have "\<exists>p h'. gate_connectivity_validator iqm_device 0 [one_way_graph] = Inr (p, h') \<and>
      has_edge (pass_graph (p, h')) 1 0"
    by (simp add: one_way_graph_def iqm_device_def gate_connectivity_validator_def graph_eval)
  then have 2: "\<exists>p h'. gate_connectivity_validator iqm_device 0 [one_way_graph] = Inr (p, h') \<and>
      h' ! 0 = one_way_graph \<and> has_edge (pass_graph (p, h')) 1 0"
    using frame by fastforce
  have "\<exists>p h'. lexi_mapping_routing_pass iqm_device 0 [one_way_graph] = Inr (p, h') \<and>
      has_edge (pass_graph (p, h')) 1 0"
    by (simp add: one_way_graph_def iqm_device_def lexi_mapping_routing_pass_def graph_eval)
  then have 3: "\<exists>p h'. lexi_mapping_routing_pass iqm_device 0 [one_way_graph] = Inr (p, h') \<and>
      h' ! 0 = one_way_graph \<and> has_edge (pass_graph (p, h')) 1 0"
    using frame by fastforce
  have "\<exists>p h'. create_nativization_pass iqm_device 0 [one_way_graph] = Inr (p, h') \<and>
      p = TketCompilerPass [(0, 1), (0, 2), (1, 0), (2, 0)]"
    by (simp add: one_way_graph_def iqm_device_def create_nativization_pass_def edges_def graph_eval)
  then have 4: "\<exists>p h'. create_nativization_pass iqm_device 0 [one_way_graph] = Inr (p, h') \<and>
      h' ! 0 = one_way_graph \<and> p = TketCompilerPass [(0, 1), (0, 2), (1, 0), (2, 0)]"
    using frame by fastforce
  show ?thesis using len 1 2 3 4 by blast
qed

section \<open>Verbatim boxes\<close>

text \<open>The two predicates on circuits, by index.\<close>

lemma no_end_between:
  assumes "j < length instructions"
  shows "EndVerbatimBox \<notin> set (map operator (drop (Suc idx) (take (Suc j) instructions))) \<longleftrightarrow>
         (\<forall>k. idx < k \<and> k \<le> j \<longrightarrow> operator (instructions ! k) \<noteq> EndVerbatimBox)"
proof
  assume a: "EndVerbatimBox \<notin> set (map operator (drop (Suc idx) (take (Suc j) instructions)))"
  show "\<forall>k. idx < k \<and> k \<le> j \<longrightarrow> operator (instructions ! k) \<noteq> EndVerbatimBox"
  proof (intro allI impI)
    fix k assume k: "idx < k \<and> k \<le> j"
    let ?zs = "drop (Suc idx) (take (Suc j) instructions)"
    have "length ?zs = Suc j - Suc idx" using assms by simp
    then have l: "k - Suc idx < length ?zs" using k by arith
    have "?zs ! (k - Suc idx) = instructions ! k" using k assms by simp
    then have "instructions ! k \<in> set ?zs" using l by (metis nth_mem)
    then have "operator (instructions ! k) \<in> set (map operator ?zs)" by simp
    then show "operator (instructions ! k) \<noteq> EndVerbatimBox" using a by metis
  qed
next
  assume b: "\<forall>k. idx < k \<and> k \<le> j \<longrightarrow> operator (instructions ! k) \<noteq> EndVerbatimBox"
  let ?zs = "drop (Suc idx) (take (Suc j) instructions)"
  have n: "operator x \<noteq> EndVerbatimBox" if "x \<in> set ?zs" for x
  proof -
    from that obtain m where m: "m < length ?zs" "x = ?zs ! m" by (metis in_set_conv_nth)
    then have "Suc idx + m \<le> j" using assms by simp
    moreover have "x = instructions ! (Suc idx + m)" using m assms by simp
    ultimately show ?thesis using b by simp
  qed
  show "EndVerbatimBox \<notin> set (map operator ?zs)"
  proof
    assume "EndVerbatimBox \<in> set (map operator ?zs)"
    then obtain x where "x \<in> set ?zs" "operator x = EndVerbatimBox"
      unfolding set_map by (metis imageE)
    then show False using n by blast
  qed
qed

lemma boxed_iff:
  "boxed instructions j \<longleftrightarrow>
     j < length instructions \<and>
     (\<exists>idx<j. operator (instructions ! idx) = StartVerbatimBox \<and>
        (\<forall>k. idx < k \<and> k \<le> j \<longrightarrow> operator (instructions ! k) \<noteq> EndVerbatimBox))"
proof (cases "j < length instructions")
  case False
  then show ?thesis by (simp add: boxed_def)
next
  case True
  have "(\<exists>idx \<in> set [0..<j]. operator (instructions ! idx) = StartVerbatimBox \<and>
          EndVerbatimBox \<notin> set (map operator (drop (Suc idx) (take (Suc j) instructions))))
        \<longleftrightarrow> (\<exists>idx<j. operator (instructions ! idx) = StartVerbatimBox \<and>
        (\<forall>k. idx < k \<and> k \<le> j \<longrightarrow> operator (instructions ! k) \<noteq> EndVerbatimBox))"
    unfolding no_end_between[OF True] by (simp add: Bex_def)
  then show ?thesis unfolding boxed_def by (simp only:)
qed

lemma unclosed_iff:
  "unclosed instructions i \<longleftrightarrow>
     i < length instructions \<and> operator (instructions ! i) = StartVerbatimBox \<and>
     (\<forall>j. i < j \<and> j < length instructions \<longrightarrow> operator (instructions ! j) \<noteq> EndVerbatimBox)"
proof (cases "i < length instructions")
  case False
  then show ?thesis by (simp add: unclosed_def)
next
  case True
  have "EndVerbatimBox \<notin> set (map operator (drop (Suc i) instructions)) \<longleftrightarrow>
        (\<forall>j. i < j \<and> j < length instructions \<longrightarrow> operator (instructions ! j) \<noteq> EndVerbatimBox)"
  proof (cases "instructions = []")
    case True
    then show ?thesis by simp
  next
    case False
    then have l: "length instructions - 1 < length instructions" by simp
    have t: "take (Suc (length instructions - 1)) instructions = instructions" using False by simp
    have "(\<forall>k. i < k \<and> k \<le> length instructions - 1 \<longrightarrow> operator (instructions ! k) \<noteq> EndVerbatimBox)
          \<longleftrightarrow> (\<forall>j. i < j \<and> j < length instructions \<longrightarrow> operator (instructions ! j) \<noteq> EndVerbatimBox)"
      using False by (auto simp: less_Suc_eq_le Suc_le_eq dest: Suc_pred')
    then show ?thesis using no_end_between[OF l, of i] t by simp
  qed
  then show ?thesis by (simp add: unclosed_def)
qed

lemma scan_box_Inl_iff:
  "scan_box g xs = Inl e \<longleftrightarrow>
     (\<exists>j. j < length xs \<and> (\<forall>k\<le>j. operator (xs ! k) \<noteq> EndVerbatimBox) \<and>
          check_instruction g (xs ! j) = Inl e \<and> (\<forall>k<j. check_instruction g (xs ! k) = Inr ()))"
proof (induction xs)
  case Nil
  then show ?case by simp
next
  case (Cons x xs)
  show ?case
  proof (cases "operator x = EndVerbatimBox")
    case True
    then show ?thesis by auto
  next
    case False
    show ?thesis
    proof (cases "check_instruction g x")
      case (Inl e')
      have "(\<exists>j. j < length (x # xs) \<and> (\<forall>k\<le>j. operator ((x # xs) ! k) \<noteq> EndVerbatimBox) \<and>
          check_instruction g ((x # xs) ! j) = Inl e \<and> (\<forall>k<j. check_instruction g ((x # xs) ! k) = Inr ()))
          \<longleftrightarrow> e' = e"
      proof
        assume "\<exists>j. j < length (x # xs) \<and> (\<forall>k\<le>j. operator ((x # xs) ! k) \<noteq> EndVerbatimBox) \<and>
          check_instruction g ((x # xs) ! j) = Inl e \<and> (\<forall>k<j. check_instruction g ((x # xs) ! k) = Inr ())"
        then obtain j where j: "check_instruction g ((x # xs) ! j) = Inl e"
          "\<forall>k<j. check_instruction g ((x # xs) ! k) = Inr ()" by blast
        show "e' = e"
        proof (cases j)
          case 0
          then show ?thesis using j(1) Inl by simp
        next
          case (Suc m)
          then have "check_instruction g ((x # xs) ! 0) = Inr ()" using j(2) by blast
          then show ?thesis using Inl by simp
        qed
      next
        assume "e' = e"
        then have "0 < length (x # xs) \<and> (\<forall>k\<le>0. operator ((x # xs) ! k) \<noteq> EndVerbatimBox) \<and>
          check_instruction g ((x # xs) ! 0) = Inl e \<and> (\<forall>k<0. check_instruction g ((x # xs) ! k) = Inr ())"
          using Inl False by simp
        then show "\<exists>j. j < length (x # xs) \<and> (\<forall>k\<le>j. operator ((x # xs) ! k) \<noteq> EndVerbatimBox) \<and>
          check_instruction g ((x # xs) ! j) = Inl e \<and> (\<forall>k<j. check_instruction g ((x # xs) ! k) = Inr ())"
          by blast
      qed
      then show ?thesis using Inl False by simp
    next
      case (Inr u)
      have L: "scan_box g (x # xs) = Inl e \<longleftrightarrow> scan_box g xs = Inl e"
        using Inr False by (simp split: sum.splits)
      have "(\<exists>j. j < length (x # xs) \<and> (\<forall>k\<le>j. operator ((x # xs) ! k) \<noteq> EndVerbatimBox) \<and>
          check_instruction g ((x # xs) ! j) = Inl e \<and> (\<forall>k<j. check_instruction g ((x # xs) ! k) = Inr ()))
        \<longleftrightarrow> (\<exists>j. j < length xs \<and> (\<forall>k\<le>j. operator (xs ! k) \<noteq> EndVerbatimBox) \<and>
          check_instruction g (xs ! j) = Inl e \<and> (\<forall>k<j. check_instruction g (xs ! k) = Inr ()))"
        (is "?A \<longleftrightarrow> ?B")
      proof
        assume ?A
        then obtain j where j: "j < length (x # xs)" "\<forall>k\<le>j. operator ((x # xs) ! k) \<noteq> EndVerbatimBox"
          "check_instruction g ((x # xs) ! j) = Inl e"
          "\<forall>k<j. check_instruction g ((x # xs) ! k) = Inr ()" by blast
        from j(3) Inr obtain m where m: "j = Suc m" by (cases j) auto
        have "m < length xs" using j(1) m by simp
        moreover have "\<forall>k\<le>m. operator (xs ! k) \<noteq> EndVerbatimBox"
        proof (intro allI impI)
          fix k assume "k \<le> m"
          then have "Suc k \<le> j" using m by simp
          then have "operator ((x # xs) ! Suc k) \<noteq> EndVerbatimBox" using j(2) by blast
          then show "operator (xs ! k) \<noteq> EndVerbatimBox" by simp
        qed
        moreover have "check_instruction g (xs ! m) = Inl e" using j(3) m by simp
        moreover have "\<forall>k<m. check_instruction g (xs ! k) = Inr ()"
        proof (intro allI impI)
          fix k assume "k < m"
          then have "Suc k < j" using m by simp
          then have "check_instruction g ((x # xs) ! Suc k) = Inr ()" using j(4) by blast
          then show "check_instruction g (xs ! k) = Inr ()" by simp
        qed
        ultimately show ?B by blast
      next
        assume ?B
        then obtain j where j: "j < length xs" "\<forall>k\<le>j. operator (xs ! k) \<noteq> EndVerbatimBox"
          "check_instruction g (xs ! j) = Inl e"
          "\<forall>k<j. check_instruction g (xs ! k) = Inr ()" by blast
        have "Suc j < length (x # xs)" using j(1) by simp
        moreover have "\<forall>k\<le>Suc j. operator ((x # xs) ! k) \<noteq> EndVerbatimBox"
        proof (intro allI impI)
          fix k assume "k \<le> Suc j"
          then show "operator ((x # xs) ! k) \<noteq> EndVerbatimBox"
            using False j(2) by (cases k) auto
        qed
        moreover have "check_instruction g ((x # xs) ! Suc j) = Inl e" using j(3) by simp
        moreover have "\<forall>k<Suc j. check_instruction g ((x # xs) ! k) = Inr ()"
        proof (intro allI impI)
          fix k assume "k < Suc j"
          then show "check_instruction g ((x # xs) ! k) = Inr ()"
            using Inr j(4) by (cases k) auto
        qed
        ultimately show ?A by blast
      qed
      then show ?thesis using L Cons.IH by simp
    qed
  qed
qed


lemma scan_box_Inr_iff:
  "scan_box g xs = Inr k \<longleftrightarrow>
     k \<le> length xs \<and>
     (\<forall>m<k. operator (xs ! m) \<noteq> EndVerbatimBox \<and> check_instruction g (xs ! m) = Inr ()) \<and>
     (k < length xs \<longrightarrow> operator (xs ! k) = EndVerbatimBox)"
proof (induction xs arbitrary: k)
  case Nil
  then show ?case by auto
next
  case (Cons x xs)
  show ?case
  proof (cases "operator x = EndVerbatimBox")
    case True
    have "k = 0" if "\<forall>m<k. operator ((x # xs) ! m) \<noteq> EndVerbatimBox \<and> check_instruction g ((x # xs) ! m) = Inr ()"
    proof (rule ccontr)
      assume "k \<noteq> 0"
      then have "operator ((x # xs) ! 0) \<noteq> EndVerbatimBox" using that by blast
      then show False using True by simp
    qed
    then show ?thesis using True by auto
  next
    case False
    show ?thesis
    proof (cases "check_instruction g x")
      case (Inl e')
      have "k = 0" if "\<forall>m<k. operator ((x # xs) ! m) \<noteq> EndVerbatimBox \<and> check_instruction g ((x # xs) ! m) = Inr ()"
      proof (rule ccontr)
        assume "k \<noteq> 0"
        then have "check_instruction g ((x # xs) ! 0) = Inr ()" using that by blast
        then show False using Inl by simp
      qed
      then show ?thesis using Inl False by auto
    next
      case (Inr u)
      show ?thesis
      proof (cases k)
        case 0
        then show ?thesis using Inr False by (auto split: sum.splits)
      next
        case (Suc k')
        have L: "scan_box g (x # xs) = Inr (Suc k') \<longleftrightarrow> scan_box g xs = Inr k'"
          using Inr False by (auto split: sum.splits)
        have R: "(\<forall>m<Suc k'. operator ((x # xs) ! m) \<noteq> EndVerbatimBox \<and> check_instruction g ((x # xs) ! m) = Inr ())
            \<longleftrightarrow> (\<forall>m<k'. operator (xs ! m) \<noteq> EndVerbatimBox \<and> check_instruction g (xs ! m) = Inr ())"
          (is "?A \<longleftrightarrow> ?B")
        proof
          assume a: ?A
          show ?B
          proof (intro allI impI)
            fix m assume "m < k'"
            then have "Suc m < Suc k'" by simp
            then have "operator ((x # xs) ! Suc m) \<noteq> EndVerbatimBox \<and> check_instruction g ((x # xs) ! Suc m) = Inr ()"
              using a by blast
            then show "operator (xs ! m) \<noteq> EndVerbatimBox \<and> check_instruction g (xs ! m) = Inr ()" by simp
          qed
        next
          assume b: ?B
          show ?A
          proof (intro allI impI)
            fix m assume "m < Suc k'"
            then show "operator ((x # xs) ! m) \<noteq> EndVerbatimBox \<and> check_instruction g ((x # xs) ! m) = Inr ()"
              using b False Inr by (cases m) auto
          qed
        qed
        show ?thesis unfolding Suc L Cons.IH R by simp
      qed
    qed
  qed
qed

text \<open>
  One round of the \<open>for\<close> loop at a \<open>StartVerbatimBox\<close>: the first check that fails
  before the next \<open>EndVerbatimBox\<close> is raised; with no failure the round passes when
  the box is closed and raises the structural error when the circuit ends first.
\<close>

lemma validate_at_first_failure:
  assumes "idx < length instructions" "operator (instructions ! idx) = StartVerbatimBox"
    and "idx < j" "j < length instructions"
    and "\<forall>k. idx < k \<and> k \<le> j \<longrightarrow> operator (instructions ! k) \<noteq> EndVerbatimBox"
    and "check_instruction g (instructions ! j) = Inl e"
    and "\<forall>k. idx < k \<and> k < j \<longrightarrow> check_instruction g (instructions ! k) = Inr ()"
  shows "validate_at g instructions idx = Inl e"
proof -
  let ?ys = "drop (idx + 1) instructions"
  have nth: "?ys ! m = instructions ! (idx + 1 + m)" if "m < length ?ys" for m
    using that by simp
  have len: "length ?ys = length instructions - (idx + 1)" by simp
  define m where "m = j - (idx + 1)"
  have j: "j = idx + 1 + m" using assms(3) by (simp add: m_def)
  have ml: "m < length ?ys" using assms(3,4) by (simp add: m_def)
  have a: "\<forall>k\<le>m. operator (?ys ! k) \<noteq> EndVerbatimBox"
  proof (intro allI impI)
    fix k assume k: "k \<le> m"
    then have "k < length ?ys" using ml by simp
    then have "?ys ! k = instructions ! (idx + 1 + k)" by (rule nth)
    moreover have "idx < idx + 1 + k \<and> idx + 1 + k \<le> j" using k j by simp
    then have "operator (instructions ! (idx + 1 + k)) \<noteq> EndVerbatimBox" using assms(5) by blast
    ultimately show "operator (?ys ! k) \<noteq> EndVerbatimBox" by simp
  qed
  have b: "check_instruction g (?ys ! m) = Inl e" using assms(6) nth[OF ml] j by simp
  have c: "\<forall>k<m. check_instruction g (?ys ! k) = Inr ()"
  proof (intro allI impI)
    fix k assume k: "k < m"
    then have "k < length ?ys" using ml by simp
    then have "?ys ! k = instructions ! (idx + 1 + k)" by (rule nth)
    moreover have "idx < idx + 1 + k \<and> idx + 1 + k < j" using k j by simp
    then have "check_instruction g (instructions ! (idx + 1 + k)) = Inr ()" using assms(7) by blast
    ultimately show "check_instruction g (?ys ! k) = Inr ()" by simp
  qed
  have "scan_box g ?ys = Inl e"
    unfolding scan_box_Inl_iff using ml a b c by blast
  then show ?thesis using assms(2) by (simp add: validate_at_def)
qed

lemma validate_at_closed:
  assumes "idx < length instructions"
    and "idx < c" "c < length instructions" "operator (instructions ! c) = EndVerbatimBox"
    and "\<forall>k. idx < k \<and> k < c \<longrightarrow>
           operator (instructions ! k) \<noteq> EndVerbatimBox \<and> check_instruction g (instructions ! k) = Inr ()"
  shows "validate_at g instructions idx = Inr ()"
proof (cases "operator (instructions ! idx) = StartVerbatimBox")
  case False
  then show ?thesis by (simp add: validate_at_def)
next
  case True
  let ?ys = "drop (idx + 1) instructions"
  have nth: "?ys ! m = instructions ! (idx + 1 + m)" if "m < length ?ys" for m
    using that by simp
  define m where "m = c - (idx + 1)"
  have c: "c = idx + 1 + m" using assms(2) by (simp add: m_def)
  have ml: "m < length ?ys" using assms(2,3) by (simp add: m_def)
  have a: "\<forall>k<m. operator (?ys ! k) \<noteq> EndVerbatimBox \<and> check_instruction g (?ys ! k) = Inr ()"
  proof (intro allI impI)
    fix k assume k: "k < m"
    then have "k < length ?ys" using ml by simp
    then have "?ys ! k = instructions ! (idx + 1 + k)" by (rule nth)
    moreover have "idx < idx + 1 + k \<and> idx + 1 + k < c" using k c by simp
    then have "operator (instructions ! (idx + 1 + k)) \<noteq> EndVerbatimBox \<and>
        check_instruction g (instructions ! (idx + 1 + k)) = Inr ()" using assms(5) by blast
    ultimately show "operator (?ys ! k) \<noteq> EndVerbatimBox \<and> check_instruction g (?ys ! k) = Inr ()"
      by simp
  qed
  have b: "operator (?ys ! m) = EndVerbatimBox" using assms(4) nth[OF ml] c by simp
  have "scan_box g ?ys = Inr m"
    unfolding scan_box_Inr_iff using ml a b by simp
  then show ?thesis using True assms(3,4) c by (simp add: validate_at_def Let_def)
qed

lemma validate_at_no_end:
  assumes "idx < length instructions" "operator (instructions ! idx) = StartVerbatimBox"
    and "\<forall>k. idx < k \<and> k < length instructions \<longrightarrow>
           operator (instructions ! k) \<noteq> EndVerbatimBox \<and> check_instruction g (instructions ! k) = Inr ()"
  shows "validate_at g instructions idx = Inl (no_end_verbatim_box (length instructions))"
proof -
  let ?ys = "drop (idx + 1) instructions"
  have nth: "?ys ! m = instructions ! (idx + 1 + m)" if "m < length ?ys" for m
    using that by simp
  have a: "\<forall>k<length ?ys. operator (?ys ! k) \<noteq> EndVerbatimBox \<and> check_instruction g (?ys ! k) = Inr ()"
  proof (intro allI impI)
    fix k assume k: "k < length ?ys"
    then have "idx < idx + 1 + k \<and> idx + 1 + k < length instructions" by simp
    then have "operator (instructions ! (idx + 1 + k)) \<noteq> EndVerbatimBox \<and>
        check_instruction g (instructions ! (idx + 1 + k)) = Inr ()" using assms(3) by blast
    then show "operator (?ys ! k) \<noteq> EndVerbatimBox \<and> check_instruction g (?ys ! k) = Inr ()"
      using nth[OF k] by simp
  qed
  define k where "k = length ?ys"
  have "scan_box g ?ys = Inr (length ?ys)"
    unfolding scan_box_Inr_iff using a by simp
  then have s: "scan_box g ?ys = Inr k" by (simp only: k_def)
  have e: "idx + 1 + k = length instructions" using assms(1) by (simp add: k_def)
  show ?thesis unfolding validate_at_def using assms(2) s e by (simp add: Let_def)
qed

lemma for_each_unit_skip:
  "\<forall>x \<in> set xs. f x = Inr () \<Longrightarrow>
     for_each (\<lambda>x _. f x) (xs @ ys) () = for_each (\<lambda>x _. f x) ys ()"
  by (induction xs) auto

lemma for_each_range_first:
  assumes "i < n" "f i = Inl e" "\<forall>m<i. f m = Inr ()"
  shows "for_each (\<lambda>idx _. f idx) [0..<n] () = Inl e"
proof -
  have "[0..<n] = [0..<i] @ [i..<n]"
    using assms(1) upt_add_eq_append[of 0 i "n - i"] by simp
  then have "[0..<n] = [0..<i] @ (i # [Suc i..<n])"
    using assms(1) by (simp add: upt_conv_Cons)
  moreover have "\<forall>x \<in> set [0..<i]. f x = Inr ()" using assms(3) by simp
  ultimately have "for_each (\<lambda>idx _. f idx) [0..<n] () = for_each (\<lambda>idx _. f idx) (i # [Suc i..<n]) ()"
    using for_each_unit_skip[of "[0..<i]" f "i # [Suc i..<n]"] by simp
  then show ?thesis using assms(2) by simp
qed

lemma for_each_range_all:
  assumes "\<forall>m<n. f m = Inr ()"
  shows "for_each (\<lambda>idx _. f idx) [0..<n] () = Inr ()"
  using for_each_unit_skip[of "[0..<n]" f "[]"] assms by simp

text \<open>The whole loop: the earliest failure among the boxed instructions wins.\<close>

lemma boxedI:
  assumes "idx < k" "k < length instructions" "operator (instructions ! idx) = StartVerbatimBox"
    and "\<forall>m. idx < m \<and> m \<le> k \<longrightarrow> operator (instructions ! m) \<noteq> EndVerbatimBox"
  shows "boxed instructions k"
  unfolding boxed_iff using assms by blast

lemma validate_at_start_closed:
  assumes "m < c0" "c0 < length instructions" "operator (instructions ! c0) = EndVerbatimBox"
    and pass: "\<forall>k<c0. boxed instructions k \<longrightarrow> check_instruction g (instructions ! k) = Inr ()"
  shows "validate_at g instructions m = Inr ()"
proof (cases "operator (instructions ! m) = StartVerbatimBox")
  case False
  then show ?thesis by (simp add: validate_at_def)
next
  case True
  define c where "c = (LEAST k. m < k \<and> operator (instructions ! k) = EndVerbatimBox)"
  have c: "m < c \<and> operator (instructions ! c) = EndVerbatimBox"
    unfolding c_def by (rule LeastI[where k = c0]) (use assms in simp)
  have cle: "c \<le> c0" unfolding c_def by (rule Least_le) (use assms in simp)
  have least: "operator (instructions ! k) \<noteq> EndVerbatimBox" if "m < k" "k < c" for k
    using that not_less_Least[of k "\<lambda>k. m < k \<and> operator (instructions ! k) = EndVerbatimBox"]
    unfolding c_def by blast
  have "operator (instructions ! k) \<noteq> EndVerbatimBox \<and> check_instruction g (instructions ! k) = Inr ()"
    if k: "m < k \<and> k < c" for k
  proof -
    have "\<forall>x. m < x \<and> x \<le> k \<longrightarrow> operator (instructions ! x) \<noteq> EndVerbatimBox"
      using least k by simp
    then have "boxed instructions k"
      using boxedI[of m k instructions] True k cle assms(2) by simp
    moreover have "k < c0" using k cle by simp
    ultimately show ?thesis using pass least k by blast
  qed
  then show ?thesis
    using validate_at_closed[of m instructions c g] c cle assms(1,2) by simp
qed

lemma validate_first_failure:
  assumes "boxed instructions j" "check_instruction g (instructions ! j) = Inl e"
    and pass: "\<forall>k<j. boxed instructions k \<longrightarrow> check_instruction g (instructions ! k) = Inr ()"
  shows "validate g instructions = Inl e"
proof -
  let ?S = "\<lambda>idx. idx < j \<and> operator (instructions ! idx) = StartVerbatimBox \<and>
              (\<forall>k. idx < k \<and> k \<le> j \<longrightarrow> operator (instructions ! k) \<noteq> EndVerbatimBox)"
  from assms(1) have jl: "j < length instructions" and ex: "\<exists>idx. ?S idx"
    unfolding boxed_iff by blast+
  define s where "s = (LEAST idx. ?S idx)"
  from ex have s: "?S s" unfolding s_def by (rule LeastI_ex)
  have least: "\<not> ?S m" if "m < s" for m
    using that not_less_Least[of m ?S] unfolding s_def by blast
  have sl: "s < length instructions" using s jl by simp
  have "check_instruction g (instructions ! k) = Inr ()" if k: "s < k \<and> k < j" for k
  proof -
    have "boxed instructions k"
      using boxedI[of s k instructions] s k jl by simp
    then show ?thesis using pass k by blast
  qed
  then have fail: "validate_at g instructions s = Inl e"
    using validate_at_first_failure[of s instructions j g e] s sl jl assms(2) by blast
  have before: "validate_at g instructions m = Inr ()" if m: "m < s" for m
  proof (cases "operator (instructions ! m) = StartVerbatimBox")
    case False
    then show ?thesis by (simp add: validate_at_def)
  next
    case True
    have "m < j" using m s by simp
    with least[OF m] True obtain c0 where c0: "m < c0" "c0 \<le> j"
      "operator (instructions ! c0) = EndVerbatimBox"
      by blast
    have "\<forall>k<c0. boxed instructions k \<longrightarrow> check_instruction g (instructions ! k) = Inr ()"
      using pass c0(2) by simp
    then show ?thesis
      using validate_at_start_closed[of m c0 instructions g] c0 jl by simp
  qed
  show ?thesis
    unfolding validate_def
    using for_each_range_first[of s "length instructions" "validate_at g instructions" e]
      sl fail before by simp
qed

lemma validate_all_pass:
  assumes pass: "\<forall>j. boxed instructions j \<longrightarrow> check_instruction g (instructions ! j) = Inr ()"
  shows "validate g instructions =
           (if \<exists>i. unclosed instructions i
            then Inl (no_end_verbatim_box (length instructions)) else Inr ())"
proof -
  have closed: "validate_at g instructions m = Inr ()"
    if m: "m < length instructions" "\<not> unclosed instructions m" for m
  proof (cases "operator (instructions ! m) = StartVerbatimBox")
    case False
    then show ?thesis by (simp add: validate_at_def)
  next
    case True
    with m obtain c0 where c0: "m < c0" "c0 < length instructions"
      "operator (instructions ! c0) = EndVerbatimBox"
      unfolding unclosed_iff by blast
    show ?thesis
      using validate_at_start_closed[of m c0 instructions g] c0 pass by simp
  qed
  show ?thesis
  proof (cases "\<exists>i. unclosed instructions i")
    case False
    then have "\<forall>m<length instructions. validate_at g instructions m = Inr ()"
      using closed by blast
    then have "validate g instructions = Inr ()"
      unfolding validate_def
      using for_each_range_all[of "length instructions" "validate_at g instructions"] by simp
    then show ?thesis using False by simp
  next
    case True
    define u where "u = (LEAST i. unclosed instructions i)"
    from True have u: "unclosed instructions u" unfolding u_def by (rule LeastI_ex)
    have least: "\<not> unclosed instructions m" if "m < u" for m
      using that not_less_Least[of m "unclosed instructions"] unfolding u_def by blast
    from u have ul: "u < length instructions"
      and us: "operator (instructions ! u) = StartVerbatimBox"
      and ue: "\<forall>j. u < j \<and> j < length instructions \<longrightarrow> operator (instructions ! j) \<noteq> EndVerbatimBox"
      unfolding unclosed_iff by blast+
    have "operator (instructions ! k) \<noteq> EndVerbatimBox \<and> check_instruction g (instructions ! k) = Inr ()"
      if k: "u < k \<and> k < length instructions" for k
    proof -
      have "boxed instructions k"
        using boxedI[of u k instructions] us ue k by simp
      then show ?thesis using pass ue k by blast
    qed
    then have fail: "validate_at g instructions u = Inl (no_end_verbatim_box (length instructions))"
      using validate_at_no_end[of u instructions g] ul us by blast
    have before: "\<forall>m<u. validate_at g instructions m = Inr ()"
      using closed least ul by simp
    have "validate g instructions = Inl (no_end_verbatim_box (length instructions))"
      unfolding validate_def
      using for_each_range_first[of u "length instructions" "validate_at g instructions"
          "no_end_verbatim_box (length instructions)"] ul fail before by simp
    then show ?thesis using True by simp
  qed
qed

lemmas validate_eval = validate_def validate_at_def check_instruction_def
  validate_instruction_connectivity_def check_edge_def get_edge_data_def has_node_def nodes_def

text \<open>
  Claim C9, as amended. A circuit with a \<open>StartVerbatimBox\<close> that no \<open>EndVerbatimBox\<close>
  follows never validates: \<open>validate\<close> raises. The instructions inside verbatim boxes
  are checked in the order of the circuit, and the error of the first one whose check
  fails is raised, whether or not a box is left open; when none fails and a box is left
  open, the structural error \<open>No end verbatim box found\<close> is raised, at the index just
  past the last instruction; when none fails and no box is left open, the circuit
  validates. An \<open>EndVerbatimBox\<close> closes every \<open>StartVerbatimBox\<close> since the
  previous \<open>EndVerbatimBox\<close>: boxes do not nest. The structural message differs from
  those that the check of a two-qubit gate raises for a pair that is not an edge of the
  graph and for a gate that is not among the edge's \<open>supported_gates\<close>.
\<close>

theorem unclosed_verbatim_box:
  "((\<exists>i. unclosed instructions i) \<longrightarrow> isl (validate g instructions)) \<and>
   (\<forall>j e. boxed instructions j \<and> check_instruction g (instructions ! j) = Inl e \<and>
        (\<forall>k<j. boxed instructions k \<longrightarrow> check_instruction g (instructions ! k) = Inr ()) \<longrightarrow>
      validate g instructions = Inl e) \<and>
   ((\<forall>j. boxed instructions j \<longrightarrow> check_instruction g (instructions ! j) = Inr ()) \<longrightarrow>
      validate g instructions =
        (if \<exists>i. unclosed instructions i
         then Inl (ValueError [Lit ''No end verbatim box found at index '',
                               IntVal (int (length instructions)), Lit '' in the circuit.''])
         else Inr ())) \<and>
   (\<forall>gate_name e0 e1.
      get_edge_data g e0 e1 = None \<longrightarrow>
      check_edge g gate_name (e0, e1) =
        Inl (ValueError [IntVal (int e0), Lit '' is not connected to '', IntVal (int e1),
                         Lit '' on this device.''])) \<and>
   (\<forall>gate_name e0 e1 d gates.
      get_edge_data g e0 e1 = Some d \<and> d supported_gates_key = Some (GateSet gates) \<and>
      gate_name \<notin> gates \<longrightarrow>
      check_edge g gate_name (e0, e1) =
        Inl (ValueError [Lit ''Qubit pair ('', IntVal (int e0), Lit '', '', IntVal (int e1),
                         Lit '') does not support gate '', StrVal gate_name,
                         Lit '' on this device.''])) \<and>
   (\<forall>idx e0 e1 gate_name.
      ValueError [Lit ''No end verbatim box found at index '', IntVal (int idx),
                  Lit '' in the circuit.''] \<noteq> not_connected e0 e1 \<and>
      ValueError [Lit ''No end verbatim box found at index '', IntVal (int idx),
                  Lit '' in the circuit.''] \<noteq> gate_not_supported e0 e1 gate_name)"
proof -
  let ?fails = "\<lambda>j. boxed instructions j \<and> check_instruction g (instructions ! j) \<noteq> Inr ()"
  have first: "validate g instructions = Inl e"
    if "boxed instructions j" "check_instruction g (instructions ! j) = Inl e"
      "\<forall>k<j. boxed instructions k \<longrightarrow> check_instruction g (instructions ! k) = Inr ()" for j e
    using validate_first_failure[OF that] .
  have pass: "validate g instructions =
        (if \<exists>i. unclosed instructions i
         then Inl (ValueError [Lit ''No end verbatim box found at index '',
                               IntVal (int (length instructions)), Lit '' in the circuit.''])
         else Inr ())"
    if "\<forall>j. boxed instructions j \<longrightarrow> check_instruction g (instructions ! j) = Inr ()"
    using validate_all_pass[OF that] by (simp add: no_end_verbatim_box_def)
  have raises: "isl (validate g instructions)" if u: "\<exists>i. unclosed instructions i"
  proof (cases "\<exists>j. ?fails j")
    case False
    then have "\<forall>j. boxed instructions j \<longrightarrow> check_instruction g (instructions ! j) = Inr ()"
      by blast
    from pass[OF this] u show ?thesis by simp
  next
    case True
    define j where "j = (LEAST j. ?fails j)"
    from True have j: "?fails j" unfolding j_def by (rule LeastI_ex)
    have least: "\<not> ?fails k" if "k < j" for k
      using that not_less_Least[of k ?fails] unfolding j_def by blast
    from j obtain e where e: "check_instruction g (instructions ! j) = Inl e"
      by (cases "check_instruction g (instructions ! j)") auto
    have "\<forall>k<j. boxed instructions k \<longrightarrow> check_instruction g (instructions ! k) = Inr ()"
      using least by blast
    from first[OF _ e this] j show ?thesis by simp
  qed
  have distinct: "ValueError [Lit ''No end verbatim box found at index '', IntVal (int idx),
                  Lit '' in the circuit.''] \<noteq> not_connected e0 e1 \<and>
      ValueError [Lit ''No end verbatim box found at index '', IntVal (int idx),
                  Lit '' in the circuit.''] \<noteq> gate_not_supported e0 e1 gate_name"
    for idx e0 e1 gate_name
    by (simp add: not_connected_def gate_not_supported_def)
  have pair: "check_edge g gate_name (e0, e1) =
        Inl (ValueError [IntVal (int e0), Lit '' is not connected to '', IntVal (int e1),
                         Lit '' on this device.''])"
    if "get_edge_data g e0 e1 = None" for gate_name e0 e1
    using that by (simp add: check_edge_def not_connected_def)
  have gate: "check_edge g gate_name (e0, e1) =
        Inl (ValueError [Lit ''Qubit pair ('', IntVal (int e0), Lit '', '', IntVal (int e1),
                         Lit '') does not support gate '', StrVal gate_name,
                         Lit '' on this device.''])"
    if "get_edge_data g e0 e1 = Some d \<and> d supported_gates_key = Some (GateSet gates) \<and>
        gate_name \<notin> gates" for gate_name e0 e1 d gates
    using that by (simp add: check_edge_def gate_not_supported_def)
  show ?thesis
  proof (intro conjI)
    show "(\<exists>i. unclosed instructions i) \<longrightarrow> isl (validate g instructions)"
      using raises by blast
    show "\<forall>j e. boxed instructions j \<and> check_instruction g (instructions ! j) = Inl e \<and>
        (\<forall>k<j. boxed instructions k \<longrightarrow> check_instruction g (instructions ! k) = Inr ()) \<longrightarrow>
      validate g instructions = Inl e"
      using first by blast
    show "(\<forall>j. boxed instructions j \<longrightarrow> check_instruction g (instructions ! j) = Inr ()) \<longrightarrow>
      validate g instructions =
        (if \<exists>i. unclosed instructions i
         then Inl (ValueError [Lit ''No end verbatim box found at index '',
                               IntVal (int (length instructions)), Lit '' in the circuit.''])
         else Inr ())"
      using pass by blast
    show "\<forall>gate_name e0 e1.
      get_edge_data g e0 e1 = None \<longrightarrow>
      check_edge g gate_name (e0, e1) =
        Inl (ValueError [IntVal (int e0), Lit '' is not connected to '', IntVal (int e1),
                         Lit '' on this device.''])"
      using pair by blast
    show "\<forall>gate_name e0 e1 d gates.
      get_edge_data g e0 e1 = Some d \<and> d supported_gates_key = Some (GateSet gates) \<and>
      gate_name \<notin> gates \<longrightarrow>
      check_edge g gate_name (e0, e1) =
        Inl (ValueError [Lit ''Qubit pair ('', IntVal (int e0), Lit '', '', IntVal (int e1),
                         Lit '') does not support gate '', StrVal gate_name,
                         Lit '' on this device.''])"
      using gate by blast
    show "\<forall>idx e0 e1 gate_name.
      ValueError [Lit ''No end verbatim box found at index '', IntVal (int idx),
                  Lit '' in the circuit.''] \<noteq> not_connected e0 e1 \<and>
      ValueError [Lit ''No end verbatim box found at index '', IntVal (int idx),
                  Lit '' in the circuit.''] \<noteq> gate_not_supported e0 e1 gate_name"
      using distinct by blast
  qed
qed

theorem unclosed_verbatim_box_witness:
  "unclosed unclosed_cz_circuit 0 \<and> boxed unclosed_cz_circuit 1 \<and>
   check_instruction cz_graph (unclosed_cz_circuit ! 1) = Inr () \<and>
   validate cz_graph unclosed_cz_circuit =
     Inl (ValueError [Lit ''No end verbatim box found at index '', IntVal 2, Lit '' in the circuit.'']) \<and>
   unclosed unclosed_circuit 0 \<and> boxed unclosed_circuit 1 \<and>
   check_instruction disconnected_graph (unclosed_circuit ! 1) = Inl (not_connected 0 1) \<and>
   validate disconnected_graph unclosed_circuit =
     Inl (ValueError [IntVal 0, Lit '' is not connected to '', IntVal 1, Lit '' on this device.''])"
proof -
  have u: "unclosed unclosed_cz_circuit 0"
    by (simp add: unclosed_def unclosed_cz_circuit_def)
  have b: "boxed unclosed_cz_circuit 1"
    by (simp add: boxed_def unclosed_cz_circuit_def)
  have c: "check_instruction cz_graph (unclosed_cz_circuit ! 1) = Inr ()"
    by (simp add: unclosed_cz_circuit_def cz_graph_def validate_eval)
  have l: "length unclosed_cz_circuit = 2" by (simp add: unclosed_cz_circuit_def)
  have all: "\<forall>j. boxed unclosed_cz_circuit j \<longrightarrow>
               check_instruction cz_graph (unclosed_cz_circuit ! j) = Inr ()"
  proof (intro allI impI)
    fix j assume j: "boxed unclosed_cz_circuit j"
    then have "j < 2 \<and> 0 < j" using l by (auto simp: boxed_def)
    then have "j = 1" by simp
    then show "check_instruction cz_graph (unclosed_cz_circuit ! j) = Inr ()" using c by simp
  qed
  have u': "unclosed unclosed_circuit 0"
    by (simp add: unclosed_def unclosed_circuit_def)
  have b': "boxed unclosed_circuit 1"
    by (simp add: boxed_def unclosed_circuit_def)
  have c': "check_instruction disconnected_graph (unclosed_circuit ! 1) = Inl (not_connected 0 1)"
    by (simp add: unclosed_circuit_def disconnected_graph_def validate_eval)
  have before: "\<forall>k<1. boxed unclosed_circuit k \<longrightarrow>
                  check_instruction disconnected_graph (unclosed_circuit ! k) = Inr ()"
    by (simp add: boxed_def)
  have "validate cz_graph unclosed_cz_circuit =
     Inl (ValueError [Lit ''No end verbatim box found at index '', IntVal 2, Lit '' in the circuit.''])"
    using unclosed_verbatim_box[of unclosed_cz_circuit cz_graph] all u l by auto
  moreover have "validate disconnected_graph unclosed_circuit = Inl (not_connected 0 1)"
    using unclosed_verbatim_box[of unclosed_circuit disconnected_graph] b' c' before by blast
  ultimately show ?thesis using u b c u' b' c' by (simp add: not_connected_def)
qed

text \<open>
  The claim as stated fails in two ways. The gates of an unclosed box are checked before
  its end is missed, so a gate on an uncoupled pair is reported instead of the structural
  error. And a box opened twice and closed once validates: the one \<open>EndVerbatimBox\<close>
  closes both.
\<close>

theorem unclosed_verbatim_box_counterexample:
  "operator (unclosed_circuit ! 0) = StartVerbatimBox \<and>
   operator (unclosed_circuit ! 1) \<noteq> EndVerbatimBox \<and> length unclosed_circuit = 2 \<and>
   validate disconnected_graph unclosed_circuit = Inl (not_connected 0 1) \<and>
   not_connected 0 1 \<noteq> no_end_verbatim_box 2 \<and>
   operator (nested_circuit ! 0) = StartVerbatimBox \<and>
   operator (nested_circuit ! 1) = StartVerbatimBox \<and>
   operator (nested_circuit ! 2) = EndVerbatimBox \<and> length nested_circuit = 3 \<and>
   validate cz_graph nested_circuit = Inr ()"
  by (simp add: unclosed_circuit_def disconnected_graph_def nested_circuit_def validate_eval
      not_connected_def no_end_verbatim_box_def numeral_2_eq_2 numeral_3_eq_3)

section \<open>Local-detuning constants\<close>

lemmas constants_eval = get_ahs_device_capabilities_def parse_obj_def capabilities_dict_def
  global_entries_def local_entries_def flag_field_def optional_field_def required_field_def
  local_detuning_constants_def

text \<open>
  Claim C7, as amended. Without the \<open>rydbergLocal\<close> block the constants record has the
  flag \<open>LOCAL_RYDBERG_CAPABILITIES\<close> false and its nine local-detuning constants at
  \<open>None\<close>; with the block the flag is true and the nine constants are the block's
  fields.
\<close>

theorem local_detuning_constants_built:
  "(rydbergLocal properties = None \<longrightarrow>
      \<not> LOCAL_RYDBERG_CAPABILITIES (get_ahs_device_capabilities properties) \<and>
      local_detuning_constants (get_ahs_device_capabilities properties) = replicate 9 None) \<and>
   (\<forall>rydberg_local. rydbergLocal properties = Some rydberg_local \<longrightarrow>
      LOCAL_RYDBERG_CAPABILITIES (get_ahs_device_capabilities properties) \<and>
      local_detuning_constants (get_ahs_device_capabilities properties) =
        [Some (local_spacingRadialMin rydberg_local),
         Some (local_timeResolution rydberg_local),
         Some (local_timeDeltaMin rydberg_local),
         Some (fst (local_detuningRange rydberg_local)),
         Some (snd (local_detuningRange rydberg_local)),
         Some (local_detuningSlewRateMax rydberg_local),
         Some (local_numberLocalDetuningSitesMax rydberg_local),
         Some (fst (local_siteCoefficientRange rydberg_local)),
         Some (snd (local_siteCoefficientRange rydberg_local))])"
  by (simp add: constants_eval Let_def numeral_eq_Suc)

theorem local_detuning_constants_built_witness:
  "rydbergLocal (aquila\<lparr>rydbergLocal := None\<rparr>) = None \<and>
   \<not> LOCAL_RYDBERG_CAPABILITIES (get_ahs_device_capabilities (aquila\<lparr>rydbergLocal := None\<rparr>)) \<and>
   local_detuning_constants (get_ahs_device_capabilities (aquila\<lparr>rydbergLocal := None\<rparr>))
     = [None, None, None, None, None, None, None, None, None] \<and>
   rydbergLocal aquila = Some aquila_local \<and>
   LOCAL_RYDBERG_CAPABILITIES (get_ahs_device_capabilities aquila) \<and>
   local_detuning_constants (get_ahs_device_capabilities aquila)
     = [Some (5 / 10 ^ 6), Some (1 / 10 ^ 9), Some (1 / 10 ^ 8), Some 0, Some 125000000,
        Some 1256600000000000, Some 200, Some 0, Some 1]"
proof -
  have a: "rydbergLocal (aquila\<lparr>rydbergLocal := None\<rparr>) = None" by simp
  have b: "rydbergLocal aquila = Some aquila_local" by (simp add: aquila_def)
  show ?thesis
    using local_detuning_constants_built[of "aquila\<lparr>rydbergLocal := None\<rparr>"]
      local_detuning_constants_built[of aquila] a b
    by (simp add: aquila_local_def numeral_eq_Suc)
qed

text \<open>
  The claim counts eleven constants; the branch taken when the block is present adds ten
  entries to the dict, the flag and nine constants.
\<close>

theorem local_detuning_keys_counterexample:
  "map fst (filter (\<lambda>(k, v). map_of (capabilities_dict (aquila\<lparr>rydbergLocal := None\<rparr>)) k = None)
              (capabilities_dict aquila))
     = [''LOCAL_RYDBERG_CAPABILITIES'', ''LOCAL_MIN_DISTANCE_BETWEEN_SHIFTED_SITES'',
        ''LOCAL_TIME_PRECISION'', ''LOCAL_MIN_TIME_SEPARATION'',
        ''LOCAL_MAGNITUDE_SEQUENCE_VALUE_MIN'', ''LOCAL_MAGNITUDE_SEQUENCE_VALUE_MAX'',
        ''LOCAL_MAGNITUDE_SLOPE_MAX'', ''LOCAL_MAX_NONZERO_PATTERN_VALUES'',
        ''MAGNITUDE_PATTERN_VALUE_MIN'', ''MAGNITUDE_PATTERN_VALUE_MAX''] \<and>
   length (filter (\<lambda>(k, v). map_of (capabilities_dict (aquila\<lparr>rydbergLocal := None\<rparr>)) k = None)
              (capabilities_dict aquila)) = 10"
  by (simp add: capabilities_dict_def global_entries_def local_entries_def aquila_def Let_def)

section \<open>Rows of the atom arrangement\<close>

lemma check_rows_Inr:
  "check_rows m ps = Inr () \<longleftrightarrow> (\<forall>(s1, s2) \<in> set ps. y_distance s1 s2 = 0 \<or> m \<le> y_distance s1 s2)"
  by (induction m ps rule: check_rows.induct) (auto simp: Let_def)

lemma check_rows_Inl:
  "check_rows m ps = Inl e \<Longrightarrow>
     \<exists>s1 s2. (s1, s2) \<in> set ps \<and> y_distance s1 s2 \<noteq> 0 \<and> y_distance s1 s2 < m \<and>
             e = rows_too_close s1 s2 (y_distance s1 s2) m"
  by (induction m ps rule: check_rows.induct) (auto simp: Let_def split: if_splits)

text \<open>
  Claim C8. \<open>sites_in_rows\<close> sorts the sites by their y-coordinate and accepts them
  exactly when every two neighbours in that order have y-coordinates that differ by 0 or
  by at least the minimum row distance, which is the fixed \<open>0.000002\<close> when the device
  has the local Rydberg capability and \<open>MIN_ROW_DISTANCE\<close> otherwise. When it raises,
  the message holds, in this order, the two sites of a pair of neighbours that violates
  this, the difference of their y-coordinates and the minimum.
\<close>

theorem sites_in_rows_check:
  "sorted (map snd (sort_key snd sites)) \<and> set (sort_key snd sites) = set sites \<and>
   min_allowed_row_distance capabilities =
     (if LOCAL_RYDBERG_CAPABILITIES capabilities then 2 / 10 ^ 6 else MIN_ROW_DISTANCE capabilities) \<and>
   ((\<forall>(s1, s2) \<in> set (zip (butlast (sort_key snd sites)) (tl (sort_key snd sites))).
        \<bar>snd s1 - snd s2\<bar> = 0 \<or> min_allowed_row_distance capabilities \<le> \<bar>snd s1 - snd s2\<bar>) \<longrightarrow>
      sites_in_rows capabilities sites = Inr sites) \<and>
   (\<not> (\<forall>(s1, s2) \<in> set (zip (butlast (sort_key snd sites)) (tl (sort_key snd sites))).
        \<bar>snd s1 - snd s2\<bar> = 0 \<or> min_allowed_row_distance capabilities \<le> \<bar>snd s1 - snd s2\<bar>) \<longrightarrow>
      (\<exists>s1 s2. (s1, s2) \<in> set (zip (butlast (sort_key snd sites)) (tl (sort_key snd sites))) \<and>
          \<bar>snd s1 - snd s2\<bar> \<noteq> 0 \<and> \<bar>snd s1 - snd s2\<bar> < min_allowed_row_distance capabilities \<and>
          sites_in_rows capabilities sites =
            Inl (ValueError [Lit ''Sites '', SiteVal s1, Lit '' and site '', SiteVal s2,
                   Lit '' have y-separation ('', NumVal \<bar>snd s1 - snd s2\<bar>,
                   Lit ''). It must either be exactly zero or not smaller than '',
                   NumVal (min_allowed_row_distance capabilities), Lit '' meters''])))"
proof -
  let ?ps = "zip (butlast (sort_key snd sites)) (tl (sort_key snd sites))"
  let ?m = "min_allowed_row_distance capabilities"
  let ?ok = "\<forall>(s1, s2) \<in> set ?ps. \<bar>snd s1 - snd s2\<bar> = 0 \<or> ?m \<le> \<bar>snd s1 - snd s2\<bar>"
  have ok: "?ok \<longleftrightarrow> (\<forall>(s1, s2) \<in> set ?ps. y_distance s1 s2 = 0 \<or> ?m \<le> y_distance s1 s2)"
    by (simp add: y_distance_def)
  have 1: "sites_in_rows capabilities sites = Inr sites" if ?ok
    using that check_rows_Inr[of ?m ?ps] unfolding ok by (simp add: sites_in_rows_def Let_def)
  have 2: "\<exists>s1 s2. (s1, s2) \<in> set ?ps \<and> \<bar>snd s1 - snd s2\<bar> \<noteq> 0 \<and> \<bar>snd s1 - snd s2\<bar> < ?m \<and>
          sites_in_rows capabilities sites =
            Inl (ValueError [Lit ''Sites '', SiteVal s1, Lit '' and site '', SiteVal s2,
                   Lit '' have y-separation ('', NumVal \<bar>snd s1 - snd s2\<bar>,
                   Lit ''). It must either be exactly zero or not smaller than '',
                   NumVal ?m, Lit '' meters''])"
    if "\<not> ?ok"
  proof -
    from that have "check_rows ?m ?ps \<noteq> Inr ()" using check_rows_Inr[of ?m ?ps] unfolding ok by simp
    then obtain e where e: "check_rows ?m ?ps = Inl e"
      by (cases "check_rows ?m ?ps") auto
    from check_rows_Inl[OF e] obtain s1 s2 where s:
      "(s1, s2) \<in> set ?ps" "y_distance s1 s2 \<noteq> 0" "y_distance s1 s2 < ?m"
      "e = rows_too_close s1 s2 (y_distance s1 s2) ?m"
      by blast
    have r: "sites_in_rows capabilities sites = Inl e"
      using e by (simp add: sites_in_rows_def Let_def)
    have "(s1, s2) \<in> set ?ps \<and> \<bar>snd s1 - snd s2\<bar> \<noteq> 0 \<and> \<bar>snd s1 - snd s2\<bar> < ?m \<and>
          sites_in_rows capabilities sites =
            Inl (ValueError [Lit ''Sites '', SiteVal s1, Lit '' and site '', SiteVal s2,
                   Lit '' have y-separation ('', NumVal \<bar>snd s1 - snd s2\<bar>,
                   Lit ''). It must either be exactly zero or not smaller than '',
                   NumVal ?m, Lit '' meters''])"
      using s r by (simp add: y_distance_def rows_too_close_def)
    then show ?thesis by blast
  qed
  have 3: "?m = (if LOCAL_RYDBERG_CAPABILITIES capabilities then 2 / 10 ^ 6
                 else MIN_ROW_DISTANCE capabilities)"
    by (simp add: min_allowed_row_distance_def)
  have 4: "sorted (map snd (sort_key snd sites)) \<and> set (sort_key snd sites) = set sites" by simp
  show ?thesis using 1 2 3 4 by blast
qed

lemma sorted_staggered_sites:
  "sort_key snd staggered_sites = [(0, 0), (1 / 10 ^ 6, 0), (2 / 10 ^ 6, 3 / 10 ^ 6)]"
  by (simp add: staggered_sites_def)

lemma aquila_min: "min_allowed_row_distance (get_ahs_device_capabilities aquila) = 2 / 10 ^ 6"
  by (simp add: min_allowed_row_distance_def get_ahs_device_capabilities_def parse_obj_def
      capabilities_dict_def global_entries_def local_entries_def aquila_def flag_field_def)

lemma aquila_no_local_min:
  "min_allowed_row_distance (get_ahs_device_capabilities (aquila\<lparr>rydbergLocal := None\<rparr>)) = 4 / 10 ^ 6"
  by (simp add: min_allowed_row_distance_def get_ahs_device_capabilities_def parse_obj_def
      capabilities_dict_def global_entries_def aquila_def flag_field_def required_field_def)

theorem sites_in_rows_check_witness:
  "sites_in_rows (get_ahs_device_capabilities aquila) staggered_sites = Inr staggered_sites \<and>
   sites_in_rows (get_ahs_device_capabilities (aquila\<lparr>rydbergLocal := None\<rparr>)) staggered_sites
     = Inl (ValueError [Lit ''Sites '', SiteVal (1 / 10 ^ 6, 0), Lit '' and site '',
              SiteVal (2 / 10 ^ 6, 3 / 10 ^ 6), Lit '' have y-separation ('', NumVal (3 / 10 ^ 6),
              Lit ''). It must either be exactly zero or not smaller than '',
              NumVal (4 / 10 ^ 6), Lit '' meters''])"
proof -
  have "sites_in_rows (get_ahs_device_capabilities aquila) staggered_sites = Inr staggered_sites"
    using sites_in_rows_check[of staggered_sites "get_ahs_device_capabilities aquila"]
    by (simp add: sorted_staggered_sites aquila_min)
  moreover have "sites_in_rows (get_ahs_device_capabilities (aquila\<lparr>rydbergLocal := None\<rparr>)) staggered_sites
     = Inl (ValueError [Lit ''Sites '', SiteVal (1 / 10 ^ 6, 0), Lit '' and site '',
              SiteVal (2 / 10 ^ 6, 3 / 10 ^ 6), Lit '' have y-separation ('', NumVal (3 / 10 ^ 6),
              Lit ''). It must either be exactly zero or not smaller than '',
              NumVal (4 / 10 ^ 6), Lit '' meters''])"
  proof -
    let ?caps = "get_ahs_device_capabilities (aquila\<lparr>rydbergLocal := None\<rparr>)"
    have bad: "\<not> (\<forall>(s1, s2) \<in> set (zip (butlast (sort_key snd staggered_sites)) (tl (sort_key snd staggered_sites))).
        \<bar>snd s1 - snd s2\<bar> = 0 \<or> min_allowed_row_distance ?caps \<le> \<bar>snd s1 - snd s2\<bar>)"
      by (simp add: sorted_staggered_sites aquila_no_local_min)
    with sites_in_rows_check[of staggered_sites ?caps]
    obtain s1 s2 where s: "(s1, s2) \<in> set (zip (butlast (sort_key snd staggered_sites)) (tl (sort_key snd staggered_sites)))"
      "\<bar>snd s1 - snd s2\<bar> \<noteq> 0"
      "sites_in_rows ?caps staggered_sites =
            Inl (ValueError [Lit ''Sites '', SiteVal s1, Lit '' and site '', SiteVal s2,
                   Lit '' have y-separation ('', NumVal \<bar>snd s1 - snd s2\<bar>,
                   Lit ''). It must either be exactly zero or not smaller than '',
                   NumVal (min_allowed_row_distance ?caps), Lit '' meters''])"
      by blast
    from s(1,2) have "s1 = (1 / 10 ^ 6, 0) \<and> s2 = (2 / 10 ^ 6, 3 / 10 ^ 6)"
      by (auto simp: sorted_staggered_sites)
    then show ?thesis using s(3) by (simp add: aquila_no_local_min)
  qed
  ultimately show ?thesis by simp
qed

section \<open>Boundary values of the amplitude\<close>

text \<open>
  Claim C6. For a driving field whose amplitude series has at least one value, the check
  raises exactly when the first or the last value is not 0, whatever the other values and
  fields are; the message holds the first and then the last value; a series that starts
  and ends at 0 passes and is returned unchanged.
\<close>

theorem amplitude_boundary_check:
  assumes "values_of (amplitude field) \<noteq> []"
  shows "(isl (amplitude_start_and_end_values field) \<longleftrightarrow>
            hd (values_of (amplitude field)) \<noteq> 0 \<or> last (values_of (amplitude field)) \<noteq> 0) \<and>
         (isl (amplitude_start_and_end_values field) \<longrightarrow>
            amplitude_start_and_end_values field =
              Inl (ValueError
                     [Lit ''The values of the Rabi frequency at the first and last time points are '',
                      NumVal (hd (values_of (amplitude field))), Lit '', '',
                      NumVal (last (values_of (amplitude field))),
                      Lit ''; they both must be nonzero.''])) \<and>
         (hd (values_of (amplitude field)) = 0 \<and> last (values_of (amplitude field)) = 0 \<longrightarrow>
            amplitude_start_and_end_values field = Inr field)"
  using assms by (simp add: amplitude_start_and_end_values_def amplitude_boundary_error_def Let_def)

theorem amplitude_boundary_check_witness:
  "values_of (amplitude (pulse [0, 12566400, 12566400, 0])) \<noteq> [] \<and>
   amplitude_start_and_end_values (pulse [0, 12566400, 12566400, 0])
     = Inr (pulse [0, 12566400, 12566400, 0]) \<and>
   values_of (amplitude (pulse [0, 12566400, 12566400, 400])) \<noteq> [] \<and>
   amplitude_start_and_end_values (pulse [0, 12566400, 12566400, 400])
     = Inl (ValueError
              [Lit ''The values of the Rabi frequency at the first and last time points are '',
               NumVal 0, Lit '', '', NumVal 400, Lit ''; they both must be nonzero.''])"
proof -
  have a: "values_of (amplitude (pulse [0, 12566400, 12566400, 0])) \<noteq> []"
    and b: "values_of (amplitude (pulse [0, 12566400, 12566400, 400])) \<noteq> []"
    by (simp_all add: pulse_def)
  have "amplitude_start_and_end_values (pulse [0, 12566400, 12566400, 0])
     = Inr (pulse [0, 12566400, 12566400, 0])"
    using amplitude_boundary_check[OF a] by (simp add: pulse_def)
  moreover have "amplitude_start_and_end_values (pulse [0, 12566400, 12566400, 400])
     = Inl (ValueError
              [Lit ''The values of the Rabi frequency at the first and last time points are '',
               NumVal 0, Lit '', '', NumVal 400, Lit ''; they both must be nonzero.''])"
    using amplitude_boundary_check[OF b] by (simp add: pulse_def)
  ultimately show ?thesis using a b by simp
qed

section \<open>The quadratic of the ramp correction\<close>

lemma antiderivative_deriv:
  "(antiderivative abc has_real_derivative quadratic abc t) (at t)"
proof -
  obtain a b c where abc: "abc = (a, b, c)" by (cases abc)
  have "((\<lambda>t. a / 3 * t ^ 3 + b / 2 * t ^ 2 + c * t) has_real_derivative a * t ^ 2 + b * t + c) (at t)"
    by (auto intro!: derivative_eq_intros simp: power2_eq_square)
  then show ?thesis
    unfolding abc antiderivative_def quadratic_def by simp
qed

lemma quadratic_coefficients_eqs:
  assumes "fr < 1" "t1 \<noteq> t2" "t2 \<noteq> 0"
  obtains a b c where "quadratic_coefficients t1 t2 v1 v2 fr = (a, b, c)"
    and "a * (t1 - t2)\<^sup>2 = 3 * (v1 + fr * v1 + v2 - fr * v2)"
    and "c * (t1 - t2)\<^sup>2 = t2 * v1 * ((2 + 3 * fr) * t1 + t2) + t1 * v2 * (t1 + (2 - 3 * fr) * t2)"
    and "b * t2 = v2 - c - a * t2\<^sup>2"
proof -
  have D: "(t1 - t2)\<^sup>2 \<noteq> 0" using assms(2) by simp
  define a where "a = 3 * (v1 + fr * v1 + v2 - fr * v2) / (t1 - t2)\<^sup>2"
  define c where "c = (t2 * v1 * ((2 + 3 * fr) * t1 + t2) + t1 * v2 * (t1 + (2 - 3 * fr) * t2)) / (t1 - t2)\<^sup>2"
  define b where "b = (v2 - c - a * t2\<^sup>2) / t2"
  have "quadratic_coefficients t1 t2 v1 v2 fr = (a, b, c)"
    using assms(1) by (simp add: quadratic_coefficients_def Let_def a_def b_def c_def)
  moreover have "a * (t1 - t2)\<^sup>2 = 3 * (v1 + fr * v1 + v2 - fr * v2)"
    using D by (simp add: a_def)
  moreover have "c * (t1 - t2)\<^sup>2 = t2 * v1 * ((2 + 3 * fr) * t1 + t2) + t1 * v2 * (t1 + (2 - 3 * fr) * t2)"
    using D by (simp add: c_def)
  moreover have "b * t2 = v2 - c - a * t2\<^sup>2"
    using assms(3) by (simp add: b_def)
  ultimately show ?thesis using that by blast
qed

text \<open>
  Claim C4, as amended. For a segment with \<open>t1 \<noteq> t2\<close>, \<open>t2 \<noteq> 0\<close> and a correction
  fraction below 1, the fitted quadratic takes the values \<open>v1\<close> at \<open>t1\<close> and \<open>v2\<close> at
  \<open>t2\<close>, and its integral over \<open>[t1, t2]\<close> is the fraction times
  \<open>(t2 - t1) * (v2 - v1) / 2\<close>, the area between the straight segment and the level
  \<open>v1\<close>: the trapezoid under the segment less the rectangle of height \<open>v1\<close>.
\<close>

theorem quadratic_fit:
  assumes "fr < 1" "t1 \<noteq> t2" "t2 \<noteq> 0"
  shows "quadratic (quadratic_coefficients t1 t2 v1 v2 fr) t1 = v1 \<and>
         quadratic (quadratic_coefficients t1 t2 v1 v2 fr) t2 = v2 \<and>
         quadratic_integral (quadratic_coefficients t1 t2 v1 v2 fr) t1 t2
           = fr * ((t2 - t1) * (v2 - v1) / 2) \<and>
         quadratic_integral (quadratic_coefficients t1 t2 v1 v2 fr) t1 t2
           = fr * (trapezoid_area t1 t2 v1 v2 - v1 * (t2 - t1))"
proof -
  obtain a b c where abc: "quadratic_coefficients t1 t2 v1 v2 fr = (a, b, c)"
    and a: "a * (t1 - t2)\<^sup>2 = 3 * (v1 + fr * v1 + v2 - fr * v2)"
    and c: "c * (t1 - t2)\<^sup>2 = t2 * v1 * ((2 + 3 * fr) * t1 + t2) + t1 * v2 * (t1 + (2 - 3 * fr) * t2)"
    and b: "b * t2 = v2 - c - a * t2\<^sup>2"
    using quadratic_coefficients_eqs[OF assms] by blast
  have nz: "t2 * (t1 - t2)\<^sup>2 \<noteq> 0" using assms(2,3) by simp
  have "(a * t1\<^sup>2 + b * t1 + c - v1) * (t2 * (t1 - t2)\<^sup>2) = 0"
    using a b c by algebra
  then have 1: "a * t1\<^sup>2 + b * t1 + c = v1" using nz by simp
  have 2: "a * t2\<^sup>2 + b * t2 + c = v2" using b by simp
  have "(a / 3 * t2 ^ 3 + b / 2 * t2\<^sup>2 + c * t2 - (a / 3 * t1 ^ 3 + b / 2 * t1\<^sup>2 + c * t1)
          - fr * ((t2 - t1) * (v2 - v1) / 2)) * (6 * (t2 * (t1 - t2)\<^sup>2)) = 0"
    using a b c by algebra
  then have 3: "a / 3 * t2 ^ 3 + b / 2 * t2\<^sup>2 + c * t2 - (a / 3 * t1 ^ 3 + b / 2 * t1\<^sup>2 + c * t1)
          = fr * ((t2 - t1) * (v2 - v1) / 2)" using nz by simp
  have 4: "fr * ((t2 - t1) * (v2 - v1) / 2) = fr * (trapezoid_area t1 t2 v1 v2 - v1 * (t2 - t1))"
    by (simp add: trapezoid_area_def field_simps)
  have q1: "quadratic (a, b, c) t1 = v1" using 1 by (simp add: quadratic_def)
  have q2: "quadratic (a, b, c) t2 = v2" using 2 by (simp add: quadratic_def)
  have q3: "quadratic_integral (a, b, c) t1 t2 = fr * ((t2 - t1) * (v2 - v1) / 2)"
    unfolding quadratic_integral_def antiderivative_def prod.case using 3 .
  have q4: "quadratic_integral (a, b, c) t1 t2 = fr * (trapezoid_area t1 t2 v1 v2 - v1 * (t2 - t1))"
    using q3 4 by (simp only:)
  show ?thesis unfolding abc using q1 q2 q3 q4 by blast
qed

theorem quadratic_fit_witness:
  "(1 / 2 :: real) < 1 \<and> (1 :: real) \<noteq> 2 \<and> (2 :: real) \<noteq> 0 \<and>
   quadratic (quadratic_coefficients 1 2 1 3 (1 / 2)) 1 = 1 \<and>
   quadratic (quadratic_coefficients 1 2 1 3 (1 / 2)) 2 = 3 \<and>
   quadratic_integral (quadratic_coefficients 1 2 1 3 (1 / 2)) 1 2 = 1 / 2"
  using quadratic_fit[of "1 / 2" 1 2 1 3] by simp

text \<open>
  The claim as stated, with the whole trapezoid, fails for a segment that does not start
  at 0: from \<open>(1, 1)\<close> to \<open>(2, 3)\<close> with fraction \<open>1/2\<close> the integral is \<open>1/2\<close>, half the
  trapezoid is \<open>1\<close>.
\<close>

theorem quadratic_integral_counterexample:
  "segment_fraction (\<lambda>slope. 1 / 2) 1 2 1 3 = 1 / 2 \<and>
   quadratic_coefficients 1 2 1 3 (1 / 2) = (9, - 25, 17) \<and>
   quadratic_integral (quadratic_coefficients 1 2 1 3 (1 / 2)) 1 2 = 1 / 2 \<and>
   1 / 2 * trapezoid_area 1 2 1 3 = 1 \<and>
   quadratic_integral (quadratic_coefficients 1 2 1 3 (1 / 2)) 1 2 \<noteq> 1 / 2 * trapezoid_area 1 2 1 3"
  by (simp add: segment_fraction_def quadratic_coefficients_def quadratic_integral_def
      antiderivative_def trapezoid_area_def Let_def)

section \<open>Resampling the amplitude\<close>

text \<open>
  Claim C5 at a concrete input: a pulse with breakpoints at the times 0, 1 and 2, sampled
  with \<open>steps = 3\<close>. The grid time 1 lies in both segments, so it contributes a value
  twice: three times are paired with four values.
\<close>

theorem amplitude_values_at_breakpoints:
  "apply_amplitude_errors (\<lambda>slope. 1 / 2) 0 (\<lambda>i. 0) triangle_pulse 3
     = Inr ([0, 1, 2], [0, 1, 1, 0])"
  by (simp add: apply_amplitude_errors_def triangle_pulse_def linspace_def segment_values_def
      segment_fraction_def quadratic_coefficients_def quadratic_def Let_def numeral_3_eq_3)

subsection \<open>What holds of the shape\<close>

lemma length_linspace: "length (linspace start stop num) = num"
  by (simp add: linspace_def)

lemma linspace_range:
  assumes "0 \<le> T" "t \<in> set (linspace 0 T num)"
  shows "0 \<le> t \<and> t \<le> T"
proof (cases "num = 1")
  case True
  then show ?thesis using assms by (simp add: linspace_def)
next
  case False
  with assms(2) obtain k where k: "k < num" "t = real k * (T / real (num - 1))"
    by (auto simp: linspace_def)
  then have n: "0 < real (num - 1)" "real k \<le> real (num - 1)" using False by auto
  have "real k * (T / real (num - 1)) = T * (real k / real (num - 1))" by simp
  moreover have "real k / real (num - 1) \<le> 1" using n by simp
  moreover have "0 \<le> real k / real (num - 1)" by simp
  ultimately have "real k * (T / real (num - 1)) \<le> T"
    using assms(1) by (metis mult.right_neutral mult_left_mono)
  moreover have "0 \<le> real k * (T / real (num - 1))" using assms(1) by simp
  ultimately show ?thesis using k by simp
qed

text \<open>How many grid times a segment contributes.\<close>

lemma length_segment_values:
  "length (segment_values get_frac grid ((t1, v1), (t2, v2)))
     = length (filter (\<lambda>t. t1 \<le> t \<and> t \<le> t2) grid)"
  by (simp add: segment_values_def Let_def)

lemma count_split:
  fixes a b c :: real
  assumes "a \<le> b" "b \<le> c" "b \<notin> set xs"
  shows "length (filter (\<lambda>t. a \<le> t \<and> t \<le> b) xs) + length (filter (\<lambda>t. b \<le> t \<and> t \<le> c) xs)
           = length (filter (\<lambda>t. a \<le> t \<and> t \<le> c) xs)"
  using assms(3)
proof (induction xs)
  case Nil
  then show ?case by simp
next
  case (Cons x xs)
  then have "x \<noteq> b" by auto
  with Cons assms(1,2) show ?case by auto
qed

lemma count_segments:
  assumes "sorted_wrt (<) (map fst (p # ps))"
    and "\<forall>t \<in> set (map fst (butlast ps)). t \<notin> set grid"
  shows "sum_list (map (\<lambda>seg. length (segment_values get_frac grid seg))
                    (zip (butlast (p # ps)) (tl (p # ps))))
           = (if ps = [] then 0
              else length (filter (\<lambda>t. fst p \<le> t \<and> t \<le> fst (last (p # ps))) grid))"
  using assms
proof (induction ps arbitrary: p)
  case Nil
  then show ?case by simp
next
  case (Cons q qs)
  obtain t1 v1 where p: "p = (t1, v1)" by (cases p)
  obtain t2 v2 where q: "q = (t2, v2)" by (cases q)
  show ?case
  proof (cases "qs = []")
    case True
    then show ?thesis by (simp add: p q length_segment_values)
  next
    case False
    have s: "sorted_wrt (<) (map fst (q # qs))" using Cons.prems(1) by simp
    have b: "\<forall>t \<in> set (map fst (butlast qs)). t \<notin> set grid"
      using Cons.prems(2) False by simp
    have IH: "sum_list (map (\<lambda>seg. length (segment_values get_frac grid seg))
                    (zip (butlast (q # qs)) (tl (q # qs))))
           = length (filter (\<lambda>t. t2 \<le> t \<and> t \<le> fst (last (q # qs))) grid)"
      using Cons.IH[OF s b] False by (simp add: q)
    have t2_notin: "t2 \<notin> set grid" using Cons.prems(2) False by (simp add: q)
    have le1: "t1 \<le> t2" using Cons.prems(1) by (simp add: p q)
    have "last (q # qs) \<in> set qs" using False by simp
    then have le2: "t2 \<le> fst (last (q # qs))"
      using Cons.prems(1) by (auto simp: q less_imp_le)
    have "zip (butlast (p # q # qs)) (tl (p # q # qs))
            = (p, q) # zip (butlast (q # qs)) (tl (q # qs))"
      by simp
    then have "sum_list (map (\<lambda>seg. length (segment_values get_frac grid seg))
                    (zip (butlast (p # q # qs)) (tl (p # q # qs))))
        = length (filter (\<lambda>t. t1 \<le> t \<and> t \<le> t2) grid)
          + length (filter (\<lambda>t. t2 \<le> t \<and> t \<le> fst (last (q # qs))) grid)"
      using IH by (simp add: p q length_segment_values del: butlast.simps)
    also have "\<dots> = length (filter (\<lambda>t. t1 \<le> t \<and> t \<le> fst (last (q # qs))) grid)"
      using count_split[OF le1 le2 t2_notin] .
    finally show ?thesis by (simp add: p)
  qed
qed

text \<open>
  Whatever the input, the grid has \<open>steps\<close> times and no amplitude value is negative.
\<close>

lemma amplitude_times_and_sign:
  assumes "apply_amplitude_errors get_frac rabi_frequency_error_rel normal points steps = Inr (ts, vs)"
  shows "length ts = steps \<and> (\<forall>v \<in> set vs. 0 \<le> v)"
proof -
  from assms have ne: "points \<noteq> []"
    by (auto simp: apply_amplitude_errors_def split: if_splits)
  with assms show ?thesis
    by (auto simp: apply_amplitude_errors_def Let_def length_linspace)
qed

text \<open>
  When the series has at least two points, starts at time 0 with increasing times, and no
  breakpoint other than the first and the last is a grid time, every grid time lies in
  exactly one segment and there are \<open>steps\<close> values.
\<close>

lemma amplitude_length_off_grid:
  assumes "2 \<le> length points"
    and "sorted_wrt (<) (map fst points)"
    and "fst (hd points) = 0"
    and "\<forall>t \<in> set (map fst (butlast (tl points))). t \<notin> set (linspace 0 (fst (last points)) steps)"
  shows "\<exists>ts vs. apply_amplitude_errors get_frac rabi_frequency_error_rel normal points steps
                    = Inr (ts, vs) \<and> length ts = steps \<and> length vs = steps"
proof -
  obtain p ps where pts: "points = p # ps" "ps \<noteq> []"
  proof (cases points)
    case Nil
    then show ?thesis using assms(1) by simp
  next
    case (Cons p ps)
    then have "ps \<noteq> []" using assms(1) by auto
    with Cons show ?thesis using that by blast
  qed
  let ?T = "fst (last points)"
  let ?grid = "linspace 0 ?T steps"
  have p0: "fst p = 0" using assms(3) pts by simp
  have "last points \<in> set ps" using pts by simp
  then have T: "0 \<le> ?T" using assms(2) pts p0 by (auto simp: less_imp_le)
  have "sum_list (map (\<lambda>seg. length (segment_values get_frac ?grid seg))
                    (zip (butlast (p # ps)) (tl (p # ps))))
           = length (filter (\<lambda>t. fst p \<le> t \<and> t \<le> fst (last (p # ps))) ?grid)"
    using count_segments[of p ps ?grid get_frac] assms(2,4) pts by simp
  also have "\<dots> = length ?grid"
    using linspace_range[OF T] pts p0 by (simp add: filter_id_conv)
  finally have "length (concat (map (segment_values get_frac ?grid)
                                  (zip (butlast points) (tl points)))) = steps"
    by (simp add: length_concat pts length_linspace comp_def del: butlast.simps)
  then show ?thesis
    using pts by (simp add: apply_amplitude_errors_def Let_def length_linspace del: butlast.simps)
qed

text \<open>
  The site list keeps its length, and the detuning lists have \<open>steps\<close> entries.
\<close>

lemma sites_and_detuning_shape:
  "length (apply_site_position_error site_position_error normal sites) = length sites \<and>
   (\<forall>ts vs ls. apply_detuning_errors interp detuning_error detuning_inhomogeneity normal' points steps
                  = Inr (ts, vs, ls) \<longrightarrow>
        length ts = steps \<and> length vs = steps \<and> length ls = steps)"
  by (auto simp: apply_site_position_error_def apply_detuning_errors_def Let_def length_linspace
      split: if_splits)

lemma sites_and_detuning_shape_example:
  "length (apply_site_position_error (1 / 10) (\<lambda>i. 1) two_rows) = 4 \<and>
   (\<exists>ts vs ls. apply_detuning_errors (\<lambda>t. t) 0 0 (\<lambda>i. 0) triangle_pulse 3 = Inr (ts, vs, ls) \<and>
        length ts = 3 \<and> length vs = 3 \<and> length ls = 3)"
proof -
  have "\<exists>ts vs ls. apply_detuning_errors (\<lambda>t. t) 0 0 (\<lambda>i. 0) triangle_pulse 3 = Inr (ts, vs, ls)"
    by (simp add: apply_detuning_errors_def triangle_pulse_def Let_def)
  then show ?thesis
    using sites_and_detuning_shape[of "1 / 10" "\<lambda>i. 1" two_rows "\<lambda>t. t" 0 0 "\<lambda>i. 0" triangle_pulse 3]
    by (auto simp: two_rows_def)
qed

lemma amplitude_times_and_sign_example:
  "\<exists>ts vs. apply_amplitude_errors (\<lambda>slope. 1 / 2) (1 / 10) (\<lambda>i. - 20) triangle_pulse 3 = Inr (ts, vs) \<and>
      length ts = 3 \<and> vs = [0, 0, 0, 0]"
proof -
  have e: "apply_amplitude_errors (\<lambda>slope. 1 / 2) (1 / 10) (\<lambda>i. - 20) triangle_pulse 3
             = Inr ([0, 1, 2], [0, 0, 0, 0])"
    by (simp add: apply_amplitude_errors_def triangle_pulse_def linspace_def segment_values_def
      segment_fraction_def quadratic_coefficients_def quadratic_def Let_def numeral_3_eq_3
      upt_rec[of 0] numeral_eq_Suc)
  from amplitude_times_and_sign[OF e] e show ?thesis by simp
qed

lemma amplitude_length_off_grid_example:
  "2 \<le> length triangle_pulse \<and> sorted_wrt (<) (map fst triangle_pulse) \<and>
   fst (hd triangle_pulse) = 0 \<and> map fst (butlast (tl triangle_pulse)) = [1] \<and>
   1 \<notin> set (linspace 0 (fst (last triangle_pulse)) 4) \<and>
   (\<exists>ts vs. apply_amplitude_errors (\<lambda>slope. 1 / 2) 0 (\<lambda>i. 0) triangle_pulse 4 = Inr (ts, vs) \<and>
      length ts = 4 \<and> length vs = 4)"
proof -
  have a: "2 \<le> length triangle_pulse" "sorted_wrt (<) (map fst triangle_pulse)"
    "fst (hd triangle_pulse) = 0" "map fst (butlast (tl triangle_pulse)) = [1]"
    by (simp_all add: triangle_pulse_def)
  have b: "1 \<notin> set (linspace 0 (fst (last triangle_pulse)) 4)"
    by (simp add: triangle_pulse_def linspace_def upt_rec[of 0] numeral_eq_Suc)
  have c: "\<forall>t \<in> set (map fst (butlast (tl triangle_pulse))).
             t \<notin> set (linspace 0 (fst (last triangle_pulse)) 4)"
    using a(4) b by simp
  show ?thesis
    using amplitude_length_off_grid[OF a(1,2,3) c, of "\<lambda>slope. 1 / 2" 0 "\<lambda>i. 0"] a b by simp
qed

end
